theory Spec2Isabelle
  imports Main "HOL-Library.Word" "HOL-Library.Signed_Division" "HOL-Library.Monad_Syntax"
begin

section \<open>The deinterlacing video filter (deinterlace.c)\<close>

text \<open>
  The model follows \<open>modules/video_filter/deinterlace/deinterlace.c\<close>. A pixel buffer
  is a list of bytes and a pointer into it an \<open>int\<close> offset, so that a pointer may
  leave the buffer as long as nothing is read or written there. A read or write outside
  its buffer is undefined in C: the operation then has no result (\<open>None\<close>), and so has
  every function that runs it. A loop that never ends has no result either.
  Timestamps (\<open>mtime_t\<close>) are words of 64 bits, read as signed numbers, and their
  arithmetic wraps around. The \<open>int\<close> fields (pitch, lines, height) are integers;
  their overflow is outside the model. The C division of signed integers truncates
  towards zero and is written \<open>sdiv\<close>.
\<close>

subsection \<open>Merge\<close>

text \<open>
  One byte of \<open>Merge\<close>: \<open>( (u16)a + (u16)b ) >> 1\<close>, stored into a \<open>u8\<close>. C adds
  the two \<open>u16\<close> values as \<open>int\<close>, which is at least as wide; the sum stays below
  \<open>2^9\<close>, so 16 bits give the same value.
\<close>

type_synonym u8 = "8 word"
type_synonym u16 = "16 word"

definition mean_u8 :: "u8 \<Rightarrow> u8 \<Rightarrow> u8" where
  "mean_u8 x y = ucast (drop_bit 1 ((ucast x :: u16) + (ucast y :: u16)))"

text \<open>
  The three pointers of \<open>Merge\<close> and the destination buffer. \<open>p_dest\<close> points into
  \<open>dest\<close>, \<open>p_s1\<close> and \<open>p_s2\<close> into the two source buffers, which \<open>Merge\<close> only reads.
\<close>

record merge_state =
  dest :: "u8 list"
  p_dest :: int
  p_s1 :: int
  p_s2 :: int

text \<open>An offset at which a byte of the buffer can be read or written.\<close>

definition readable :: "u8 list \<Rightarrow> int \<Rightarrow> bool" where
  "readable buf off = (0 \<le> off \<and> off < int (length buf))"

text \<open>
  The statement \<open>*(u8*)p_dest++ = ( (u16)(*(u8*)p_s1++) + (u16)(*(u8*)p_s2++) ) >> 1\<close>.
\<close>

definition merge_one :: "u8 list \<Rightarrow> u8 list \<Rightarrow> merge_state \<Rightarrow> merge_state option" where
  "merge_one s1 s2 st =
     (if readable s1 (p_s1 st) \<and> readable s2 (p_s2 st) \<and> readable (dest st) (p_dest st)
      then Some \<lparr>dest = (dest st)[nat (p_dest st) :=
                          mean_u8 (s1 ! nat (p_s1 st)) (s2 ! nat (p_s2 st))],
                 p_dest = p_dest st + 1, p_s1 = p_s1 st + 1, p_s2 = p_s2 st + 1\<rparr>
      else None)"

text \<open>The body of the first loop: the statement eight times.\<close>

definition merge_eight :: "u8 list \<Rightarrow> u8 list \<Rightarrow> merge_state \<Rightarrow> merge_state option" where
  "merge_eight s1 s2 st =
     merge_one s1 s2 st \<bind> merge_one s1 s2 \<bind> merge_one s1 s2 \<bind> merge_one s1 s2
       \<bind> merge_one s1 s2 \<bind> merge_one s1 s2 \<bind> merge_one s1 s2 \<bind> merge_one s1 s2"

text \<open>Each statement advances \<open>p_dest\<close> by one, so both loops of \<open>Merge\<close> end.\<close>

lemma merge_one_p_dest: "merge_one s1 s2 st = Some st' \<Longrightarrow> p_dest st' = p_dest st + 1"
  by (auto simp: merge_one_def split: if_splits)

lemma merge_eight_p_dest: "merge_eight s1 s2 st = Some st' \<Longrightarrow> p_dest st' = p_dest st + 8"
  by (auto simp: merge_eight_def bind_eq_Some_conv dest!: merge_one_p_dest)

text \<open>The loop \<open>while( (u8*)p_dest < p_end )\<close> around the eight statements.\<close>

function merge_unrolled :: "u8 list \<Rightarrow> u8 list \<Rightarrow> int \<Rightarrow> merge_state \<Rightarrow> merge_state option" where
  "merge_unrolled s1 s2 p_end st =
     (if p_dest st < p_end
      then merge_eight s1 s2 st \<bind> merge_unrolled s1 s2 p_end
      else Some st)"
  by pat_completeness auto
termination
  apply (relation "measure (\<lambda>(s1, s2, p_end, st). nat (p_end - p_dest st))")
   apply simp
  apply (auto dest!: merge_eight_p_dest)
  done

text \<open>The second loop, \<open>while( (u8*)p_dest < p_end )\<close> around one statement.\<close>

function merge_tail :: "u8 list \<Rightarrow> u8 list \<Rightarrow> int \<Rightarrow> merge_state \<Rightarrow> merge_state option" where
  "merge_tail s1 s2 p_end st =
     (if p_dest st < p_end
      then merge_one s1 s2 st \<bind> merge_tail s1 s2 p_end
      else Some st)"
  by pat_completeness auto
termination
  apply (relation "measure (\<lambda>(s1, s2, p_end, st). nat (p_end - p_dest st))")
   apply simp
  apply (auto dest!: merge_one_p_dest)
  done

declare merge_unrolled.simps [simp del] merge_tail.simps [simp del]

text \<open>
  \<open>Merge( p_dest, p_s1, p_s2, i_bytes )\<close>: \<open>p_end\<close> is \<open>p_dest + i_bytes - 8\<close> for the
  first loop and 8 more for the second. The result is the destination buffer.
\<close>

definition Merge :: "u8 list \<Rightarrow> int \<Rightarrow> u8 list \<Rightarrow> int \<Rightarrow> u8 list \<Rightarrow> int \<Rightarrow> nat \<Rightarrow> u8 list option" where
  "Merge dst d s1 p1 s2 p2 i_bytes =
     (let p_end = d + int i_bytes - 8 in
      merge_unrolled s1 s2 p_end \<lparr>dest = dst, p_dest = d, p_s1 = p1, p_s2 = p2\<rparr> \<bind> (\<lambda>st.
      let p_end = p_end + 8 in
      merge_tail s1 s2 p_end st \<bind> (\<lambda>st. Some (dest st))))"


subsection \<open>Buffers, planes and pictures\<close>

text \<open>
  A byte count passed as \<open>size_t\<close>. The callers pass the \<open>int\<close> pitch of a plane; a
  negative \<open>int\<close> converts to a count above every buffer length, with which no copy
  stays inside its buffers, so the conversion has no result there.
\<close>

definition to_size_t :: "int \<Rightarrow> nat option" where
  "to_size_t i = (if 0 \<le> i then Some (nat i) else None)"

text \<open>
  Modelled from the spec: \<open>p_vout->p_vlc->pf_memcpy\<close> is set outside this file; section
  4.4 of the specification has rows "copied verbatim", and the model is the \<open>memcpy\<close> of
  the C library: \<open>n\<close> bytes from offset \<open>s\<close> of \<open>src\<close> to offset \<open>d\<close> of \<open>dst\<close>. The
  two buffers are distinct objects (a source plane and a plane of an output picture).
\<close>

definition pf_memcpy :: "u8 list \<Rightarrow> int \<Rightarrow> u8 list \<Rightarrow> int \<Rightarrow> nat \<Rightarrow> u8 list option" where
  "pf_memcpy dst d src s n =
     (if 0 \<le> d \<and> d + int n \<le> int (length dst) \<and> 0 \<le> s \<and> s + int n \<le> int (length src)
      then Some (take (nat d) dst @ take n (drop (nat s) src) @ drop (nat d + n) dst)
      else None)"

text \<open>
  Modelled from the spec: the macro \<open>VLC_FOURCC\<close> comes from a header that is not in
  this file. Section 3 of the specification has the pixel format as a tag from a small
  set; the macro packs its four characters into one code, so two codes are equal exactly
  when the characters are, and the model keeps the four characters.
\<close>

type_synonym fourcc = string

definition VLC_FOURCC :: "char \<Rightarrow> char \<Rightarrow> char \<Rightarrow> char \<Rightarrow> fourcc" where
  "VLC_FOURCC a b c d = [a, b, c, d]"

definition I420 :: fourcc where "I420 = VLC_FOURCC CHR ''I'' CHR ''4'' CHR ''2'' CHR ''0''"
definition IYUV :: fourcc where "IYUV = VLC_FOURCC CHR ''I'' CHR ''Y'' CHR ''U'' CHR ''V''"
definition YV12 :: fourcc where "YV12 = VLC_FOURCC CHR ''Y'' CHR ''V'' CHR ''1'' CHR ''2''"
definition I422 :: fourcc where "I422 = VLC_FOURCC CHR ''I'' CHR ''4'' CHR ''2'' CHR ''2''"

text \<open>
  Modelled from the spec: \<open>plane_t\<close> and \<open>picture_t\<close> are declared in headers that are
  not in this file. Section 3 of the specification gives a plane a pixel buffer, a pitch
  and a line count, and a picture its planes and a timestamp; the fields are the ones
  this file uses. \<open>planes\<close> is the array \<open>p[]\<close> and its length is \<open>i_planes\<close>;
  \<open>p_pixels\<close> is the buffer the pointer of that name points to, at offset 0.
\<close>

record plane_t =
  p_pixels :: "u8 list"
  i_lines :: int
  i_pitch :: int

text \<open>
  Modelled from the spec: \<open>mtime_t\<close>, the type of the dates, is declared in a header
  that is not in this file; section 3 of the specification gives a picture a
  presentation timestamp, an integer time unit. The model takes the type as VLC
  declares it, a signed integer of 64 bits. Sums, differences and products of dates are
  taken modulo \<open>2 ^ 64\<close>, as the machine computes them, and \<open>sint\<close> reads a date as the
  signed number it stands for. \<open>mtime_div\<close> is the operator \<open>/\<close> of C on this type: the
  quotient of the signed values, truncated towards zero.
\<close>

type_synonym mtime_t = "64 word"

definition mtime_div :: "mtime_t \<Rightarrow> mtime_t \<Rightarrow> mtime_t" where
  "mtime_div a b = word_of_int (sint a sdiv sint b)"

record picture_t =
  planes :: "plane_t list"
  date :: mtime_t

definition Y_PLANE :: nat where
  "Y_PLANE = 0"

subsection \<open>RenderBob\<close>

text \<open>
  The three row loops of \<open>RenderBob\<close>, each \<open>for( ; p_out < p_out_end ; )\<close>: the loop
  of the 4:2:0 formats, the loop of the I422 luma plane, which writes each source row
  twice, and the loop of the I422 chroma planes. \<open>pitch\<close> is the pitch of the source
  plane, \<open>out\<close> the buffer of the output plane.
\<close>

partial_function (option) bob_rows ::
  "u8 list \<Rightarrow> int \<Rightarrow> int \<Rightarrow> u8 list \<Rightarrow> int \<Rightarrow> int \<Rightarrow> u8 list option" where
  "bob_rows src pitch p_out_end out p_out p_in =
     (if p_out < p_out_end
      then to_size_t pitch \<bind> (\<lambda>n. pf_memcpy out p_out src p_in n) \<bind> (\<lambda>out.
           bob_rows src pitch p_out_end out (p_out + pitch) (p_in + 2 * pitch))
      else Some out)"

partial_function (option) bob_rows_doubled ::
  "u8 list \<Rightarrow> int \<Rightarrow> int \<Rightarrow> int \<Rightarrow> u8 list \<Rightarrow> int \<Rightarrow> int \<Rightarrow> u8 list option" where
  "bob_rows_doubled src pitch i_increment p_out_end out p_out p_in =
     (if p_out < p_out_end
      then to_size_t pitch \<bind> (\<lambda>n. pf_memcpy out p_out src p_in n) \<bind> (\<lambda>out.
           to_size_t pitch \<bind> (\<lambda>n. pf_memcpy out (p_out + pitch) src p_in n) \<bind> (\<lambda>out.
           bob_rows_doubled src pitch i_increment p_out_end out (p_out + pitch + pitch)
             (p_in + i_increment)))
      else Some out)"

partial_function (option) bob_rows_stepped ::
  "u8 list \<Rightarrow> int \<Rightarrow> int \<Rightarrow> int \<Rightarrow> u8 list \<Rightarrow> int \<Rightarrow> int \<Rightarrow> u8 list option" where
  "bob_rows_stepped src pitch i_increment p_out_end out p_out p_in =
     (if p_out < p_out_end
      then to_size_t pitch \<bind> (\<lambda>n. pf_memcpy out p_out src p_in n) \<bind> (\<lambda>out.
           bob_rows_stepped src pitch i_increment p_out_end out (p_out + pitch)
             (p_in + i_increment))
      else Some out)"

declare bob_rows.simps [code] bob_rows_doubled.simps [code] bob_rows_stepped.simps [code]

text \<open>The body of the loop over the planes in \<open>RenderBob\<close>.\<close>

definition RenderBob_plane :: "fourcc \<Rightarrow> int \<Rightarrow> nat \<Rightarrow> plane_t \<Rightarrow> plane_t \<Rightarrow> plane_t option" where
  "RenderBob_plane chroma i_field i_plane outp inp =
     (let p_in = i_field * i_pitch inp;
          p_out = 0;
          p_out_end = p_out + i_pitch outp * i_lines outp
      in if chroma = I420 \<or> chroma = IYUV \<or> chroma = YV12
         then map_option (\<lambda>b. outp\<lparr>p_pixels := b\<rparr>)
                (bob_rows (p_pixels inp) (i_pitch inp) p_out_end (p_pixels outp) p_out p_in)
         else if chroma = I422
         then let i_increment = 2 * i_pitch inp
              in if i_plane = Y_PLANE
                 then map_option (\<lambda>b. outp\<lparr>p_pixels := b\<rparr>)
                        (bob_rows_doubled (p_pixels inp) (i_pitch inp) i_increment p_out_end
                           (p_pixels outp) p_out p_in)
                 else map_option (\<lambda>b. outp\<lparr>p_pixels := b\<rparr>)
                        (bob_rows_stepped (p_pixels inp) (i_pitch inp) i_increment p_out_end
                           (p_pixels outp) p_out p_in)
         else Some outp)"

text \<open>
  The loop over \<open>i_plane < p_pic->i_planes\<close>, shared by the four renderers: \<open>body\<close> is
  the loop body for one plane index. The planes of the source picture decide how often
  it runs; the code never reads \<open>p_outpic->i_planes\<close>. For an output picture with fewer
  planes it goes on with the unused entries of the array \<open>p_outpic->p[]\<close>, whose
  content this file does not determine: there the model has no result.
\<close>

fun for_planes ::
  "(nat \<Rightarrow> plane_t \<Rightarrow> plane_t \<Rightarrow> plane_t option) \<Rightarrow> nat \<Rightarrow> plane_t list \<Rightarrow> plane_t list
     \<Rightarrow> plane_t list option" where
  "for_planes body i_plane outs [] = Some outs"
| "for_planes body i_plane [] (inp # ins) = None"
| "for_planes body i_plane (outp # outs) (inp # ins) =
     body i_plane outp inp \<bind> (\<lambda>outp'.
     for_planes body (Suc i_plane) outs ins \<bind> (\<lambda>outs'. Some (outp' # outs')))"

definition RenderBob :: "fourcc \<Rightarrow> picture_t \<Rightarrow> picture_t \<Rightarrow> int \<Rightarrow> picture_t option" where
  "RenderBob chroma p_outpic p_pic i_field =
     map_option (\<lambda>ps. p_outpic\<lparr>planes := ps\<rparr>)
       (for_planes (RenderBob_plane chroma i_field) 0 (planes p_outpic) (planes p_pic))"

subsection \<open>RenderLinear\<close>

text \<open>
  The row loop of \<open>RenderLinear\<close>: a copied row, then a row merged from the source row
  and the source row two below. The result carries \<open>p_out\<close> and \<open>p_in\<close>, which the code
  after the loop goes on using.
\<close>

partial_function (option) linear_rows ::
  "u8 list \<Rightarrow> int \<Rightarrow> int \<Rightarrow> u8 list \<Rightarrow> int \<Rightarrow> int \<Rightarrow> (u8 list \<times> int \<times> int) option" where
  "linear_rows src pitch p_out_end out p_out p_in =
     (if p_out < p_out_end
      then to_size_t pitch \<bind> (\<lambda>n. pf_memcpy out p_out src p_in n) \<bind> (\<lambda>out.
           to_size_t pitch \<bind> (\<lambda>n. Merge out (p_out + pitch) src p_in src (p_in + 2 * pitch) n)
             \<bind> (\<lambda>out.
           linear_rows src pitch p_out_end out (p_out + pitch + pitch) (p_in + 2 * pitch)))
      else Some (out, p_out, p_in))"

declare linear_rows.simps [code]

text \<open>
  The body of the loop over the planes in \<open>RenderLinear\<close>: the extra first row of the
  bottom field, the loop up to two rows before the end of the output plane, one more
  copied row, and the last row of the top field.
\<close>

definition RenderLinear_plane :: "int \<Rightarrow> nat \<Rightarrow> plane_t \<Rightarrow> plane_t \<Rightarrow> plane_t option" where
  "RenderLinear_plane i_field i_plane outp inp =
     (let src = p_pixels inp; pitch = i_pitch inp;
          p_in = 0;
          p_out = 0;
          p_out_end = p_out + i_pitch outp * i_lines outp
      in (if i_field = 1
          then to_size_t pitch \<bind> (\<lambda>n. pf_memcpy (p_pixels outp) p_out src p_in n) \<bind> (\<lambda>out.
               Some (out, p_out + pitch, p_in + pitch))
          else Some (p_pixels outp, p_out, p_in)) \<bind> (\<lambda>(out, p_out, p_in).
         let p_out_end = p_out_end - 2 * i_pitch outp
         in linear_rows src pitch p_out_end out p_out p_in \<bind> (\<lambda>(out, p_out, p_in).
            to_size_t pitch \<bind> (\<lambda>n. pf_memcpy out p_out src p_in n) \<bind> (\<lambda>out.
            (if i_field = 0
             then to_size_t pitch \<bind> (\<lambda>n. pf_memcpy out (p_out + pitch) src (p_in + pitch) n)
             else Some out) \<bind> (\<lambda>out.
            Some (outp\<lparr>p_pixels := out\<rparr>))))))"

definition RenderLinear :: "picture_t \<Rightarrow> picture_t \<Rightarrow> int \<Rightarrow> picture_t option" where
  "RenderLinear p_outpic p_pic i_field =
     map_option (\<lambda>ps. p_outpic\<lparr>planes := ps\<rparr>)
       (for_planes (RenderLinear_plane i_field) 0 (planes p_outpic) (planes p_pic))"

subsection \<open>RenderMean and RenderBlend\<close>

text \<open>
  The row loops of \<open>RenderMean\<close> and \<open>RenderBlend\<close>: both merge a source row with the
  row below it; \<open>RenderMean\<close> then moves two source rows on, \<open>RenderBlend\<close> one.
\<close>

partial_function (option) mean_rows ::
  "u8 list \<Rightarrow> int \<Rightarrow> int \<Rightarrow> u8 list \<Rightarrow> int \<Rightarrow> int \<Rightarrow> u8 list option" where
  "mean_rows src pitch p_out_end out p_out p_in =
     (if p_out < p_out_end
      then to_size_t pitch \<bind> (\<lambda>n. Merge out p_out src p_in src (p_in + pitch) n) \<bind> (\<lambda>out.
           mean_rows src pitch p_out_end out (p_out + pitch) (p_in + 2 * pitch))
      else Some out)"

partial_function (option) blend_rows ::
  "u8 list \<Rightarrow> int \<Rightarrow> int \<Rightarrow> u8 list \<Rightarrow> int \<Rightarrow> int \<Rightarrow> u8 list option" where
  "blend_rows src pitch p_out_end out p_out p_in =
     (if p_out < p_out_end
      then to_size_t pitch \<bind> (\<lambda>n. Merge out p_out src p_in src (p_in + pitch) n) \<bind> (\<lambda>out.
           blend_rows src pitch p_out_end out (p_out + pitch) (p_in + pitch))
      else Some out)"

declare mean_rows.simps [code] blend_rows.simps [code]

definition RenderMean_plane :: "nat \<Rightarrow> plane_t \<Rightarrow> plane_t \<Rightarrow> plane_t option" where
  "RenderMean_plane i_plane outp inp =
     (let p_in = 0;
          p_out = 0;
          p_out_end = p_out + i_pitch outp * i_lines outp
      in map_option (\<lambda>b. outp\<lparr>p_pixels := b\<rparr>)
           (mean_rows (p_pixels inp) (i_pitch inp) p_out_end (p_pixels outp) p_out p_in))"

definition RenderMean :: "picture_t \<Rightarrow> picture_t \<Rightarrow> picture_t option" where
  "RenderMean p_outpic p_pic =
     map_option (\<lambda>ps. p_outpic\<lparr>planes := ps\<rparr>)
       (for_planes RenderMean_plane 0 (planes p_outpic) (planes p_pic))"

text \<open>
  The body of the loop over the planes in \<open>RenderBlend\<close>: the first row is copied, the
  loop merges the others.
\<close>

definition RenderBlend_plane :: "nat \<Rightarrow> plane_t \<Rightarrow> plane_t \<Rightarrow> plane_t option" where
  "RenderBlend_plane i_plane outp inp =
     (let p_in = 0;
          p_out = 0;
          p_out_end = p_out + i_pitch outp * i_lines outp
      in to_size_t (i_pitch inp) \<bind> (\<lambda>n. pf_memcpy (p_pixels outp) p_out (p_pixels inp) p_in n)
           \<bind> (\<lambda>out.
         let p_out = p_out + i_pitch inp
         in map_option (\<lambda>b. outp\<lparr>p_pixels := b\<rparr>)
              (blend_rows (p_pixels inp) (i_pitch inp) p_out_end out p_out p_in)))"

definition RenderBlend :: "picture_t \<Rightarrow> picture_t \<Rightarrow> picture_t option" where
  "RenderBlend p_outpic p_pic =
     map_option (\<lambda>ps. p_outpic\<lparr>planes := ps\<rparr>)
       (for_planes RenderBlend_plane 0 (planes p_outpic) (planes p_pic))"

subsection \<open>The output sink\<close>

text \<open>
  Modelled from the spec: the video output behind \<open>p_sys->p_vout\<close> and its functions
  \<open>vout_CreateThread\<close>, \<open>vout_CreatePicture\<close>, \<open>vout_DatePicture\<close>,
  \<open>vout_DisplayPicture\<close> and \<open>vout_DestroyPicture\<close> are not part of this file
  (section 6 of the specification: \<open>acquire_picture\<close>, \<open>set_timestamp\<close>,
  \<open>submit_picture\<close>, \<open>release_picture\<close>, \<open>is_shutting_down\<close>).
  The sink is the list of what the coming calls of \<open>vout_CreatePicture\<close> will answer,
  the pictures displayed so far and the pictures given back so far, both in call order.
  An answer \<open>NoPicture die err\<close> is a \<open>NULL\<close> result; it carries the values of
  \<open>p_vout->b_die\<close> and \<open>p_vout->b_error\<close> that the polling loop reads next, since
  other threads set these flags.
\<close>

datatype attempt = Picture picture_t | NoPicture bool bool

record sink_t =
  polls :: "attempt list"
  displayed :: "picture_t list"
  destroyed :: "picture_t list"

definition vout_DatePicture :: "picture_t \<Rightarrow> mtime_t \<Rightarrow> picture_t" where
  "vout_DatePicture p_pic d = p_pic\<lparr>date := d\<rparr>"

definition vout_DisplayPicture :: "sink_t \<Rightarrow> picture_t \<Rightarrow> sink_t" where
  "vout_DisplayPicture sink p_pic = sink\<lparr>displayed := displayed sink @ [p_pic]\<rparr>"

definition vout_DestroyPicture :: "sink_t \<Rightarrow> picture_t \<Rightarrow> sink_t" where
  "vout_DestroyPicture sink p_pic = sink\<lparr>destroyed := destroyed sink @ [p_pic]\<rparr>"

subsection \<open>The filter's state\<close>

text \<open>
  \<open>vout_sys_t\<close> as this file declares it; \<open>p_vout\<close> is the pointer to the real output,
  \<open>None\<close> for \<open>NULL\<close>. Of \<open>vout_thread_t\<close>, declared elsewhere, the model keeps what this
  file uses: the formats \<open>render\<close> and \<open>output\<close> and \<open>p_sys\<close>. The flags \<open>b_die\<close> and
  \<open>b_error\<close> come with the answers of the sink. A message is the text \<open>msg_Err\<close> or
  \<open>msg_Dbg\<close> was called with.
\<close>

definition DEINTERLACE_DISCARD :: int where "DEINTERLACE_DISCARD = 1"
definition DEINTERLACE_MEAN :: int where "DEINTERLACE_MEAN = 2"
definition DEINTERLACE_BLEND :: int where "DEINTERLACE_BLEND = 3"
definition DEINTERLACE_BOB :: int where "DEINTERLACE_BOB = 4"
definition DEINTERLACE_LINEAR :: int where "DEINTERLACE_LINEAR = 5"

record vout_sys_t =
  i_mode :: int
  b_double_rate :: bool
  last_date :: mtime_t
  next_date :: mtime_t
  p_vout :: "sink_t option"

record format_t =
  i_chroma :: fourcc
  i_width :: int
  i_height :: int
  i_aspect :: int

record vout_thread_t =
  render :: format_t
  output_fmt :: format_t
  p_sys :: vout_sys_t

datatype msg = Msg_Err string | Msg_Dbg string

subsection \<open>Create\<close>

text \<open>
  \<open>fresh\<close> is what \<open>malloc\<close> returns: \<open>None\<close> for \<open>NULL\<close>, else a structure with
  arbitrary content. \<open>psz_method\<close> is what \<open>config_GetPsz\<close> returns for
  \<open>deinterlace-mode\<close>. The result is the return value, the structure stored in
  \<open>p_vout->p_sys\<close> and the messages in the order they are sent.
\<close>

definition Create :: "vout_sys_t option \<Rightarrow> string option \<Rightarrow> int \<times> vout_sys_t option \<times> msg list" where
  "Create fresh psz_method =
     (case fresh of
        None \<Rightarrow> (1, None, [Msg_Err ''out of memory''])
      | Some sys0 \<Rightarrow>
          let sys = sys0\<lparr>i_mode := DEINTERLACE_DISCARD, b_double_rate := False, last_date := 0\<rparr>
          in (case psz_method of
                None \<Rightarrow>
                  (0, Some sys,
                   [Msg_Err ''configuration variable deinterlace-mode empty'',
                    Msg_Err ''no deinterlace mode provided, using \"discard\"''])
              | Some m \<Rightarrow>
                  if m = ''discard''
                  then (0, Some (sys\<lparr>i_mode := DEINTERLACE_DISCARD\<rparr>), [])
                  else if m = ''mean''
                  then (0, Some (sys\<lparr>i_mode := DEINTERLACE_MEAN\<rparr>), [])
                  else if m = ''blend'' \<or> m = ''average'' \<or> m = ''combine-fields''
                  then (0, Some (sys\<lparr>i_mode := DEINTERLACE_BLEND\<rparr>), [])
                  else if m = ''bob'' \<or> m = ''progressive-scan''
                  then (0, Some (sys\<lparr>i_mode := DEINTERLACE_BOB, b_double_rate := True\<rparr>), [])
                  else if m = ''linear''
                  then (0, Some (sys\<lparr>i_mode := DEINTERLACE_LINEAR, b_double_rate := True\<rparr>), [])
                  else (0, Some sys,
                        [Msg_Err ''no valid deinterlace mode provided, using \"discard\"''])))"

subsection \<open>Init\<close>

text \<open>
  \<open>spawned\<close> is what \<open>vout_CreateThread\<close> returns if it is called. The result is the
  return value, the new state, the formats \<open>vout_CreateThread\<close> was called with, in call
  order, and the messages. The allocation of the filter's own direct buffers by the
  macro \<open>ALLOCATE_DIRECTBUFFERS\<close> touches none of the modelled state.
\<close>

definition Init :: "sink_t option \<Rightarrow> vout_thread_t \<Rightarrow> int \<times> vout_thread_t \<times> format_t list \<times> msg list" where
  "Init spawned vout =
     (let c = i_chroma (render vout)
      in if \<not> (c = I420 \<or> c = IYUV \<or> c = YV12 \<or> c = I422)
         then (0, vout, [], [])
         else
           let vout = vout\<lparr>output_fmt := (output_fmt vout)\<lparr>i_chroma := i_chroma (render vout),
                                                  i_width := i_width (render vout),
                                                  i_height := i_height (render vout),
                                                  i_aspect := i_aspect (render vout)\<rparr>\<rparr>;
               out = output_fmt vout;
               mode = i_mode (p_sys vout);
               requests =
                 (if c = I420 \<or> c = IYUV \<or> c = YV12
                  then (if mode = DEINTERLACE_BOB \<or> mode = DEINTERLACE_MEAN
                             \<or> mode = DEINTERLACE_DISCARD
                        then [out\<lparr>i_height := i_height out sdiv 2\<rparr>]
                        else if mode = DEINTERLACE_BLEND \<or> mode = DEINTERLACE_LINEAR
                        then [out]
                        else [])
                  else [out\<lparr>i_chroma := I420\<rparr>]);
               vout = (if requests = [] then vout
                       else vout\<lparr>p_sys := (p_sys vout)\<lparr>p_vout := spawned\<rparr>\<rparr>)
           in if p_vout (p_sys vout) = None
              then (0, vout, requests,
                    [Msg_Dbg ''spawning the real video output'',
                     Msg_Err ''cannot open vout, aborting''])
              else (0, vout, requests, [Msg_Dbg ''spawning the real video output'']))"

subsection \<open>Render\<close>

text \<open>
  The polling loop \<open>while( ( pic = vout_CreatePicture( ... ) ) == NULL )\<close>: the result is
  the picture, or \<open>None\<close> when \<open>b_die\<close> or \<open>b_error\<close> was set after a \<open>NULL\<close>, with the
  answers left over. A loop that is still polling when the answers end has no result.
\<close>

fun acquire :: "attempt list \<Rightarrow> (picture_t option \<times> attempt list) option" where
  "acquire [] = None"
| "acquire (Picture pic # rest) = Some (Some pic, rest)"
| "acquire (NoPicture die err # rest) = (if die \<or> err then Some (None, rest) else acquire rest)"

text \<open>
  The \<open>switch\<close> on \<open>i_mode\<close> at the end of \<open>Render\<close>. \<open>pic1\<close> is \<open>pp_outpic[1]\<close>, set
  only in double rate; a mode that uses it unset has no result.
\<close>

definition render_switch ::
  "vout_thread_t \<Rightarrow> sink_t \<Rightarrow> picture_t \<Rightarrow> picture_t option \<Rightarrow> picture_t \<Rightarrow> sink_t option" where
  "render_switch vout sink pic0 pic1 p_pic =
     (let mode = i_mode (p_sys vout); chroma = i_chroma (render vout)
      in if mode = DEINTERLACE_DISCARD
         then RenderBob chroma pic0 p_pic 0 \<bind> (\<lambda>pic0. Some (vout_DisplayPicture sink pic0))
         else if mode = DEINTERLACE_BOB
         then RenderBob chroma pic0 p_pic 0 \<bind> (\<lambda>pic0.
              let sink = vout_DisplayPicture sink pic0
              in pic1 \<bind> (\<lambda>pic1. RenderBob chroma pic1 p_pic 1) \<bind> (\<lambda>pic1.
                 Some (vout_DisplayPicture sink pic1)))
         else if mode = DEINTERLACE_LINEAR
         then RenderLinear pic0 p_pic 0 \<bind> (\<lambda>pic0.
              let sink = vout_DisplayPicture sink pic0
              in pic1 \<bind> (\<lambda>pic1. RenderLinear pic1 p_pic 1) \<bind> (\<lambda>pic1.
                 Some (vout_DisplayPicture sink pic1)))
         else if mode = DEINTERLACE_MEAN
         then RenderMean pic0 p_pic \<bind> (\<lambda>pic0. Some (vout_DisplayPicture sink pic0))
         else if mode = DEINTERLACE_BLEND
         then RenderBlend pic0 p_pic \<bind> (\<lambda>pic0. Some (vout_DisplayPicture sink pic0))
         else Some sink)"

text \<open>The state with the sink behind \<open>p_sys->p_vout\<close> replaced.\<close>

definition set_sink :: "vout_thread_t \<Rightarrow> sink_t \<Rightarrow> vout_thread_t" where
  "set_sink vout sink = vout\<lparr>p_sys := (p_sys vout)\<lparr>p_vout := Some sink\<rparr>\<rparr>"

text \<open>
  \<open>Render\<close> up to its \<open>switch\<close>: the first picture is acquired and dated with the date of
  the input; in double rate the second is acquired (the first is given back if that is
  cancelled) and dated, and \<open>last_date\<close> is stored. The result is \<open>Cancelled\<close> with the
  state on return when \<open>Render\<close> returns from a polling loop, else \<open>Acquired\<close> with the
  state, the sink as the polls left it, which \<open>Render\<close> puts into the state when it
  returns, \<open>pp_outpic[0]\<close> and, in double rate, \<open>pp_outpic[1]\<close>.
\<close>

datatype acquired =
  Cancelled vout_thread_t
| Acquired vout_thread_t sink_t picture_t "picture_t option"

definition Render_acquire :: "vout_thread_t \<Rightarrow> picture_t \<Rightarrow> acquired option" where
  "Render_acquire vout p_pic =
     p_vout (p_sys vout) \<bind> (\<lambda>sink.
     acquire (polls sink) \<bind> (\<lambda>(got0, rest).
     let sink = sink\<lparr>polls := rest\<rparr>
     in case got0 of
          None \<Rightarrow> Some (Cancelled (set_sink vout sink))
        | Some pic0 \<Rightarrow>
            let pic0 = vout_DatePicture pic0 (date p_pic)
            in if b_double_rate (p_sys vout)
               then acquire (polls sink) \<bind> (\<lambda>(got1, rest).
                    let sink = sink\<lparr>polls := rest\<rparr>
                    in case got1 of
                         None \<Rightarrow> Some (Cancelled (set_sink vout (vout_DestroyPicture sink pic0)))
                       | Some pic1 \<Rightarrow>
                           let pic1 =
                                 (if last_date (p_sys vout) = 0
                                  then vout_DatePicture pic1 (date p_pic + 20000)
                                  else vout_DatePicture pic1
                                         (mtime_div (3 * date p_pic - last_date (p_sys vout)) 2));
                               vout = vout\<lparr>p_sys := (p_sys vout)\<lparr>last_date := date p_pic\<rparr>\<rparr>
                           in Some (Acquired vout sink pic0 (Some pic1)))
               else Some (Acquired vout sink pic0 None)))"

text \<open>
  \<open>Render\<close>: the acquisition and dating above, then the \<open>switch\<close>. The result is the
  state on return.
\<close>

definition Render :: "vout_thread_t \<Rightarrow> picture_t \<Rightarrow> vout_thread_t option" where
  "Render vout p_pic =
     Render_acquire vout p_pic \<bind> (\<lambda>r.
     case r of
       Cancelled vout \<Rightarrow> Some vout
     | Acquired vout sink pic0 pic1 \<Rightarrow>
         render_switch vout sink pic0 pic1 p_pic \<bind> (\<lambda>sink. Some (set_sink vout sink)))"

text \<open>\<open>Render\<close> called for one picture after the other, as the host does.\<close>

fun render_all :: "vout_thread_t \<Rightarrow> picture_t list \<Rightarrow> vout_thread_t option" where
  "render_all vout [] = Some vout"
| "render_all vout (p_pic # pics) = Render vout p_pic \<bind> (\<lambda>vout. render_all vout pics)"

section \<open>Notions used in the statements\<close>

text \<open>\<open>k\<close> consecutive byte steps of \<open>Merge\<close>, to describe what its two loops do.\<close>

primrec merge_steps :: "nat \<Rightarrow> u8 list \<Rightarrow> u8 list \<Rightarrow> merge_state \<Rightarrow> merge_state option" where
  "merge_steps 0 s1 s2 st = Some st"
| "merge_steps (Suc k) s1 s2 st = merge_one s1 s2 st \<bind> merge_steps k s1 s2"

text \<open>
  What \<open>Create\<close> leaves in the structure \<open>malloc\<close> returned: the mode, the
  double-rate flag and a zero \<open>last_date\<close>; the other fields keep their content.
\<close>

definition fresh_mode :: "vout_sys_t \<Rightarrow> int \<Rightarrow> bool \<Rightarrow> vout_sys_t" where
  "fresh_mode sys0 mode dbl = sys0\<lparr>i_mode := mode, b_double_rate := dbl, last_date := 0\<rparr>"

text \<open>What \<open>Create\<close> returns on every path once \<open>malloc\<close> has succeeded.\<close>

definition good_sys :: "int \<times> vout_sys_t option \<times> msg list \<Rightarrow> bool" where
  "good_sys r = (case r of (rc, sys, log) \<Rightarrow> rc = 0 \<and>
     (case sys of None \<Rightarrow> False | Some s \<Rightarrow> last_date s = 0 \<and>
        (b_double_rate s \<longleftrightarrow> i_mode s = DEINTERLACE_BOB \<or> i_mode s = DEINTERLACE_LINEAR)))"

text \<open>The formats \<open>Init\<close> passes to \<open>vout_CreateThread\<close>.\<close>

definition requested :: "int \<times> vout_thread_t \<times> format_t list \<times> msg list \<Rightarrow> format_t list" where
  "requested r = fst (snd (snd r))"

text \<open>A list of answers of the sink in which neither \<open>b_die\<close> nor \<open>b_error\<close> is ever set.\<close>

definition no_cancel :: "attempt list \<Rightarrow> bool" where
  "no_cancel ps = list_all (\<lambda>a. case a of Picture pic \<Rightarrow> True | NoPicture die err \<Rightarrow> \<not> die \<and> \<not> err) ps"

text \<open>
  The date \<open>Render\<close> gives the second picture in double rate, from the stored
  \<open>last_date\<close> \<open>P\<close> and the date \<open>C\<close> of the input picture.
\<close>

definition second_date :: "mtime_t \<Rightarrow> mtime_t \<Rightarrow> mtime_t" where
  "second_date P C = (if P = 0 then C + 20000 else mtime_div (3 * C - P) 2)"

text \<open>The dates of the pictures displayed for input dates \<open>cs\<close>, from a stored \<open>P\<close>.\<close>

fun out_dates :: "mtime_t \<Rightarrow> mtime_t list \<Rightarrow> mtime_t list" where
  "out_dates P [] = []"
| "out_dates P (C # cs) = C # second_date P C # out_dates C cs"

text \<open>The dates of the pictures a run has handed to the sink, in display order.\<close>

definition output_dates :: "vout_thread_t option \<Rightarrow> mtime_t list option" where
  "output_dates r = r \<bind> (\<lambda>vout. p_vout (p_sys vout)) \<bind> (\<lambda>sink. Some (map date (displayed sink)))"

text \<open>
  Input dates, as signed numbers, under which the displayed dates increase: the first
  date is positive, the second input comes more than 20000 after the first, every gap
  between two inputs is at least 2 and more than half the gap before it, and no date
  computed from them leaves the 64 bits: \<open>C + 20000\<close> for the first input and
  \<open>3 * C - P\<close> for every later input \<open>C\<close> after \<open>P\<close> stay below \<open>2 ^ 63\<close>.
\<close>

fun spaced :: "int \<Rightarrow> int \<Rightarrow> int list \<Rightarrow> bool" where
  "spaced P C [] = (2 \<le> C - P \<and> 3 * C - P < 2 ^ 63)"
| "spaced P C (C' # cs) =
     (2 \<le> C - P \<and> 3 * C - P < 2 ^ 63 \<and> C - P < 2 * (C' - C) \<and> spaced C C' cs)"

fun well_spaced :: "int list \<Rightarrow> bool" where
  "well_spaced [] = True"
| "well_spaced [C] = (0 < C \<and> C + 20000 < 2 ^ 63)"
| "well_spaced (C # C' # cs) =
     (0 < C \<and> C + 20000 < 2 ^ 63 \<and> 20000 < C' - C \<and> spaced C C' cs)"

text \<open>The pictures among the answers of a sink, in the order they are handed out.\<close>

fun pictures :: "attempt list \<Rightarrow> picture_t list" where
  "pictures [] = []"
| "pictures (Picture pic # rest) = pic # pictures rest"
| "pictures (NoPicture die err # rest) = pictures rest"

text \<open>Row \<open>k\<close> of a buffer with rows of \<open>P\<close> bytes, and row \<open>k\<close> of a plane.\<close>

definition row :: "nat \<Rightarrow> u8 list \<Rightarrow> nat \<Rightarrow> u8 list" where
  "row P buf k = take P (drop (k * P) buf)"

definition plane_row :: "plane_t \<Rightarrow> nat \<Rightarrow> u8 list" where
  "plane_row pl k = row (nat (i_pitch pl)) (p_pixels pl) k"

text \<open>
  \<open>out\<close> is \<open>dst\<close> with the bytes \<open>c\<close> written at offset \<open>d\<close> and nothing else
  changed.
\<close>

definition wrote :: "u8 list \<Rightarrow> u8 list \<Rightarrow> nat \<Rightarrow> u8 list \<Rightarrow> bool" where
  "wrote dst out d c \<longleftrightarrow>
     length out = length dst \<and> d + length c \<le> length dst \<and>
     (\<forall>i < length dst. out ! i = (if d \<le> i \<and> i < d + length c then c ! (i - d) else dst ! i))"

text \<open>
  A plane as section 3 of the specification requires it: a positive pitch, a line count
  that is not negative, and a buffer that holds \<open>pitch * lines\<close> bytes.
\<close>

definition well_formed :: "plane_t \<Rightarrow> bool" where
  "well_formed pl \<longleftrightarrow>
     0 < i_pitch pl \<and> 0 \<le> i_lines pl \<and> i_pitch pl * i_lines pl \<le> int (length (p_pixels pl))"

text \<open>
  An output plane for Discard and Bob: the pitch of the source plane and at most half
  its lines.
\<close>

definition bob_fits :: "plane_t \<Rightarrow> plane_t \<Rightarrow> bool" where
  "bob_fits outp inp \<longleftrightarrow>
     well_formed outp \<and> well_formed inp \<and> i_pitch outp = i_pitch inp \<and>
     2 * i_lines outp \<le> i_lines inp"

text \<open>
  \<open>d\<close> is the output picture \<open>p_outpic\<close> after field \<open>f\<close> of \<open>p_pic\<close> was copied into
  it: in every plane, row \<open>k\<close> is row \<open>2 * k + f\<close> of the source plane.
\<close>

definition field_rows :: "nat \<Rightarrow> picture_t \<Rightarrow> picture_t \<Rightarrow> picture_t \<Rightarrow> bool" where
  "field_rows f p_pic p_outpic d \<longleftrightarrow>
     length (planes d) = length (planes p_outpic) \<and>
     (\<forall>n < length (planes p_outpic).
        i_lines (planes d ! n) = i_lines (planes p_outpic ! n) \<and>
        i_pitch (planes d ! n) = i_pitch (planes p_outpic ! n) \<and>
        (\<forall>k < nat (i_lines (planes p_outpic ! n)).
           plane_row (planes d ! n) k = plane_row (planes p_pic ! n) (2 * k + f)))"

text \<open>An output plane for Blend and Linear: the pitch and the lines of the source plane.\<close>

definition same_size :: "plane_t \<Rightarrow> plane_t \<Rightarrow> bool" where
  "same_size outp inp \<longleftrightarrow>
     well_formed outp \<and> well_formed inp \<and> i_pitch outp = i_pitch inp \<and>
     i_lines outp = i_lines inp"

text \<open>
  An output plane for Blend: the pitch of the source plane, at least one line and at
  most the lines of the source plane. The planes of an output picture of the size of
  the source picture are such, in a 4:2:0 format, where they have the lines of the
  source planes, and for a source in the format I422, where the output is I420 and its
  chroma planes have half the lines of the source chroma planes.
\<close>

definition blend_fits :: "plane_t \<Rightarrow> plane_t \<Rightarrow> bool" where
  "blend_fits outp inp \<longleftrightarrow>
     well_formed outp \<and> well_formed inp \<and> i_pitch outp = i_pitch inp \<and>
     1 \<le> i_lines outp \<and> i_lines outp \<le> i_lines inp"

text \<open>
  An output plane on which both fields of Linear stay inside the planes: the size of the
  source plane and an even number of lines, at least two.
\<close>

definition linear_fits :: "plane_t \<Rightarrow> plane_t \<Rightarrow> bool" where
  "linear_fits outp inp \<longleftrightarrow> same_size outp inp \<and> 2 \<le> i_lines inp \<and> i_lines inp mod 2 = 0"

text \<open>
  An output picture that fits the source picture in the two double-rate modes: Bob on a
  4:2:0 format, with planes of at most half the lines, and Linear, with planes of the
  same, even size.
\<close>

definition render_fits :: "vout_thread_t \<Rightarrow> picture_t \<Rightarrow> picture_t \<Rightarrow> bool" where
  "render_fits vout p_outpic p_pic \<longleftrightarrow>
     (i_mode (p_sys vout) = DEINTERLACE_BOB \<and>
      (i_chroma (render vout) = I420 \<or> i_chroma (render vout) = IYUV \<or>
       i_chroma (render vout) = YV12) \<and>
      list_all2 bob_fits (planes p_outpic) (planes p_pic)) \<or>
     (i_mode (p_sys vout) = DEINTERLACE_LINEAR \<and>
      list_all2 linear_fits (planes p_outpic) (planes p_pic))"

subsection \<open>Example inputs\<close>

definition sysA :: vout_sys_t where
  "sysA = \<lparr>i_mode = 0, b_double_rate = True, last_date = 7, next_date = 0, p_vout = None\<rparr>"

definition vout_422 :: vout_thread_t where
  "vout_422 = \<lparr>render = \<lparr>i_chroma = I422, i_width = 720, i_height = 480, i_aspect = 4\<rparr>,
               output_fmt = \<lparr>i_chroma = [], i_width = 0, i_height = 0, i_aspect = 0\<rparr>,
               p_sys = \<lparr>i_mode = DEINTERLACE_DISCARD, b_double_rate = False, last_date = 0,
                        next_date = 0, p_vout = None\<rparr>\<rparr>"

definition vout_422_blend :: vout_thread_t where
  "vout_422_blend = vout_422\<lparr>p_sys := (p_sys vout_422)\<lparr>i_mode := DEINTERLACE_BLEND\<rparr>\<rparr>"

definition vout_bob :: vout_thread_t where
  "vout_bob = \<lparr>render = \<lparr>i_chroma = I420, i_width = 720, i_height = 576, i_aspect = 4\<rparr>,
               output_fmt = \<lparr>i_chroma = [], i_width = 0, i_height = 0, i_aspect = 0\<rparr>,
               p_sys = \<lparr>i_mode = DEINTERLACE_BOB, b_double_rate = True, last_date = 0,
                        next_date = 0, p_vout = None\<rparr>\<rparr>"

text \<open>
  A 2 by 4 picture in a 4:2:0 format (a luma plane of four rows, two chroma planes of
  two rows), an output picture of half its height, and a filter state around a sink
  with the given answers.
\<close>

definition out_half :: picture_t where
  "out_half = \<lparr>planes = [\<lparr>p_pixels = [0, 0, 0, 0], i_lines = 2, i_pitch = 2\<rparr>,
                         \<lparr>p_pixels = [0], i_lines = 1, i_pitch = 1\<rparr>,
                         \<lparr>p_pixels = [0], i_lines = 1, i_pitch = 1\<rparr>], date = 0\<rparr>"

definition frame :: "mtime_t \<Rightarrow> picture_t" where
  "frame d = \<lparr>planes = [\<lparr>p_pixels = [1, 2, 3, 4, 5, 6, 7, 8], i_lines = 4, i_pitch = 2\<rparr>,
                        \<lparr>p_pixels = [9, 10], i_lines = 2, i_pitch = 1\<rparr>,
                        \<lparr>p_pixels = [11, 12], i_lines = 2, i_pitch = 1\<rparr>], date = d\<rparr>"

definition sink_ex :: "attempt list \<Rightarrow> sink_t" where
  "sink_ex ps = \<lparr>polls = ps, displayed = [], destroyed = []\<rparr>"

definition vout_ex :: "int \<Rightarrow> bool \<Rightarrow> mtime_t \<Rightarrow> attempt list \<Rightarrow> vout_thread_t" where
  "vout_ex mode dbl prev ps =
     \<lparr>render = \<lparr>i_chroma = I420, i_width = 2, i_height = 4, i_aspect = 1\<rparr>,
      output_fmt = \<lparr>i_chroma = I420, i_width = 2, i_height = 4, i_aspect = 1\<rparr>,
      p_sys = \<lparr>i_mode = mode, b_double_rate = dbl, last_date = prev, next_date = 0,
               p_vout = Some (sink_ex ps)\<rparr>\<rparr>"

text \<open>
  An output picture of the full height, a 2 by 4 picture in the format I422, whose
  chroma planes have four rows, a plane of three rows of two bytes, and a
  2 by 6 picture in the format I420, whose chroma planes have three rows, with an
  output picture of its size and a filter state in the mode Linear for it.
\<close>

definition out_full :: picture_t where
  "out_full = \<lparr>planes = [\<lparr>p_pixels = [0, 0, 0, 0, 0, 0, 0, 0], i_lines = 4, i_pitch = 2\<rparr>,
                         \<lparr>p_pixels = [0, 0], i_lines = 2, i_pitch = 1\<rparr>,
                         \<lparr>p_pixels = [0, 0], i_lines = 2, i_pitch = 1\<rparr>], date = 0\<rparr>"

definition frame_422 :: picture_t where
  "frame_422 =
     \<lparr>planes = [\<lparr>p_pixels = [1, 2, 3, 4, 5, 6, 7, 8], i_lines = 4, i_pitch = 2\<rparr>,
                \<lparr>p_pixels = [10, 20, 30, 40], i_lines = 4, i_pitch = 1\<rparr>,
                \<lparr>p_pixels = [50, 60, 70, 80], i_lines = 4, i_pitch = 1\<rparr>], date = 0\<rparr>"

definition plane3 :: "u8 list \<Rightarrow> plane_t" where
  "plane3 px = \<lparr>p_pixels = px, i_lines = 3, i_pitch = 2\<rparr>"

definition frame_six :: picture_t where
  "frame_six =
     \<lparr>planes = [\<lparr>p_pixels = [1, 2, 3, 4, 5, 6, 7, 8, 9, 10, 11, 12], i_lines = 6, i_pitch = 2\<rparr>,
                \<lparr>p_pixels = [13, 14, 15], i_lines = 3, i_pitch = 1\<rparr>,
                \<lparr>p_pixels = [16, 17, 18], i_lines = 3, i_pitch = 1\<rparr>], date = 100\<rparr>"

definition out_six :: picture_t where
  "out_six =
     \<lparr>planes = [\<lparr>p_pixels = [0, 0, 0, 0, 0, 0, 0, 0, 0, 0, 0, 0], i_lines = 6, i_pitch = 2\<rparr>,
                \<lparr>p_pixels = [0, 0, 0], i_lines = 3, i_pitch = 1\<rparr>,
                \<lparr>p_pixels = [0, 0, 0], i_lines = 3, i_pitch = 1\<rparr>], date = 0\<rparr>"

definition vout_six :: vout_thread_t where
  "vout_six =
     \<lparr>render = \<lparr>i_chroma = I420, i_width = 2, i_height = 6, i_aspect = 1\<rparr>,
      output_fmt = \<lparr>i_chroma = I420, i_width = 2, i_height = 6, i_aspect = 1\<rparr>,
      p_sys = \<lparr>i_mode = DEINTERLACE_LINEAR, b_double_rate = True, last_date = 0, next_date = 0,
               p_vout = Some (sink_ex [Picture out_six, Picture out_six])\<rparr>\<rparr>"

section \<open>Properties of Merge\<close>

lemma unat_mean_u8: "unat (mean_u8 x y) = (unat x + unat y) div 2"
proof -
  have bx: "unat x < 256" and bz: "unat y < 256"
    using unsigned_less [of x, where ?'a = nat] unsigned_less [of y, where ?'a = nat] by simp_all
  have cx: "unat (ucast x :: u16) = unat x" and cy: "unat (ucast y :: u16) = unat y"
    using bx bz by (simp_all add: unsigned_ucast_eq take_bit_nat_eq_self)
  have s: "unat ((ucast x :: u16) + (ucast y :: u16)) = unat x + unat y"
    using bx bz by (simp add: unat_word_ariths cx cy)
  have d: "unat (drop_bit 1 ((ucast x :: u16) + (ucast y :: u16))) = (unat x + unat y) div 2"
    by (simp add: drop_bit_eq_div unat_div s)
  have "(unat x + unat y) div 2 < 256" using bx bz by linarith
  then show ?thesis
    by (simp only: mean_u8_def unsigned_ucast_eq d) (simp add: take_bit_nat_eq_self)
qed

lemma merge_steps_add:
  "merge_steps (a + b) s1 s2 st = merge_steps a s1 s2 st \<bind> merge_steps b s1 s2"
  by (induction a arbitrary: st) (simp_all cong: Option.bind_cong)

lemma merge_eight_steps: "merge_eight s1 s2 st = merge_steps 8 s1 s2 st"
  by (simp add: merge_eight_def eval_nat_numeral cong: Option.bind_cong)

lemma merge_steps_p_dest:
  "merge_steps k s1 s2 st = Some st' \<Longrightarrow> p_dest st' = p_dest st + int k"
  by (induction k arbitrary: st) (auto simp: bind_eq_Some_conv dest!: merge_one_p_dest)

lemma merge_unrolled_steps:
  "merge_unrolled s1 s2 p_end st =
     merge_steps (8 * nat ((p_end - p_dest st + 7) div 8)) s1 s2 st"
proof (induction s1 s2 p_end st rule: merge_unrolled.induct)
  case (1 s1 s2 p_end st)
  show ?case
  proof (cases "p_dest st < p_end")
    case False
    then have "nat ((p_end - p_dest st + 7) div 8) = 0" by simp
    with False show ?thesis by (subst merge_unrolled.simps) simp
  next
    case True
    define m where "m = nat ((p_end - p_dest st + 7) div 8)"
    from True have m: "8 * m = 8 + 8 * (m - 1)" unfolding m_def by simp
    have "merge_eight s1 s2 st \<bind> merge_unrolled s1 s2 p_end =
          merge_steps 8 s1 s2 st \<bind> merge_steps (8 * (m - 1)) s1 s2"
    proof (cases "merge_eight s1 s2 st")
      case None
      then show ?thesis by (simp add: merge_eight_steps [symmetric])
    next
      case (Some x)
      then have px: "p_dest x = p_dest st + 8" by (rule merge_eight_p_dest)
      have "nat ((p_end - p_dest x + 7) div 8) = m - 1" unfolding m_def px by simp
      with "1.IH" [OF True, of x] Some show ?thesis
        by (simp add: merge_eight_steps [symmetric])
    qed
    with True show ?thesis
      unfolding m_def [symmetric]
      by (subst m, subst merge_steps_add, subst merge_unrolled.simps) simp
  qed
qed

lemma merge_tail_steps:
  "merge_tail s1 s2 p_end st = merge_steps (nat (p_end - p_dest st)) s1 s2 st"
proof (induction s1 s2 p_end st rule: merge_tail.induct)
  case (1 s1 s2 p_end st)
  show ?case
  proof (cases "p_dest st < p_end")
    case False
    then show ?thesis by (subst merge_tail.simps) simp
  next
    case True
    then obtain k where k: "nat (p_end - p_dest st) = Suc k"
      by (cases "nat (p_end - p_dest st)") simp_all
    have "merge_one s1 s2 st \<bind> merge_tail s1 s2 p_end =
          merge_one s1 s2 st \<bind> merge_steps k s1 s2"
    proof (cases "merge_one s1 s2 st")
      case None
      then show ?thesis by simp
    next
      case (Some x)
      then have px: "p_dest x = p_dest st + 1" by (rule merge_one_p_dest)
      have "nat (p_end - p_dest x) = k" unfolding px using k by simp
      with "1.IH" [OF True, of x] Some show ?thesis by simp
    qed
    with True show ?thesis by (subst merge_tail.simps) (simp add: k)
  qed
qed

lemma Merge_steps:
  "Merge dst d s1 p1 s2 p2 n =
     map_option dest (merge_steps n s1 s2 \<lparr>dest = dst, p_dest = d, p_s1 = p1, p_s2 = p2\<rparr>)"
proof -
  define st0 where "st0 = \<lparr>dest = dst, p_dest = d, p_s1 = p1, p_s2 = p2\<rparr>"
  define m where "m = nat ((int n - 1) div 8)"
  have le: "8 * m \<le> n" unfolding m_def by (cases "n = 0") simp_all
  have m': "nat ((d + int n - 8 - p_dest st0 + 7) div 8) = m"
    unfolding m_def st0_def by simp
  have "Merge dst d s1 p1 s2 p2 n =
        merge_steps (8 * m) s1 s2 st0 \<bind> (\<lambda>st.
          merge_steps (nat (d + int n - 8 + 8 - p_dest st)) s1 s2 st \<bind> (\<lambda>st. Some (dest st)))"
    unfolding Merge_def Let_def merge_unrolled_steps merge_tail_steps st0_def [symmetric] m' ..
  also have "\<dots> = merge_steps (8 * m) s1 s2 st0 \<bind> (\<lambda>st.
          merge_steps (n - 8 * m) s1 s2 st \<bind> (\<lambda>st. Some (dest st)))"
  proof (rule Option.bind_cong [OF refl])
    fix st assume "merge_steps (8 * m) s1 s2 st0 = Some st"
    then have "p_dest st = d + int (8 * m)"
      using merge_steps_p_dest [of "8 * m" s1 s2 st0 st] by (simp add: st0_def)
    then have "nat (d + int n - 8 + 8 - p_dest st) = n - 8 * m" using le by simp
    then show "merge_steps (nat (d + int n - 8 + 8 - p_dest st)) s1 s2 st \<bind> (\<lambda>st. Some (dest st)) =
               merge_steps (n - 8 * m) s1 s2 st \<bind> (\<lambda>st. Some (dest st))" by simp
  qed
  also have "\<dots> = merge_steps (8 * m + (n - 8 * m)) s1 s2 st0 \<bind> (\<lambda>st. Some (dest st))"
    by (simp add: merge_steps_add)
  also have "\<dots> = map_option dest (merge_steps n s1 s2 st0)"
    using le by (cases "merge_steps n s1 s2 st0") simp_all
  finally show ?thesis unfolding st0_def .
qed

lemma merge_steps_result:
  assumes "0 \<le> p_dest st" "p_dest st + int k \<le> int (length (dest st))"
    and "0 \<le> p_s1 st" "p_s1 st + int k \<le> int (length s1)"
    and "0 \<le> p_s2 st" "p_s2 st + int k \<le> int (length s2)"
  shows "\<exists>st'. merge_steps k s1 s2 st = Some st' \<and> length (dest st') = length (dest st) \<and>
           (\<forall>j < length (dest st). dest st' ! j =
              (if nat (p_dest st) \<le> j \<and> j < nat (p_dest st) + k
               then mean_u8 (s1 ! (nat (p_s1 st) + (j - nat (p_dest st))))
                            (s2 ! (nat (p_s2 st) + (j - nat (p_dest st))))
               else dest st ! j))"
  using assms
proof (induction k arbitrary: st)
  case 0
  then show ?case by auto
next
  case (Suc k)
  define st1 where "st1 = \<lparr>dest = (dest st)[nat (p_dest st) :=
                          mean_u8 (s1 ! nat (p_s1 st)) (s2 ! nat (p_s2 st))],
                 p_dest = p_dest st + 1, p_s1 = p_s1 st + 1, p_s2 = p_s2 st + 1\<rparr>"
  have one: "merge_one s1 s2 st = Some st1"
    using Suc.prems by (simp add: merge_one_def readable_def st1_def)
  have "\<exists>st'. merge_steps k s1 s2 st1 = Some st' \<and> length (dest st') = length (dest st1) \<and>
           (\<forall>j < length (dest st1). dest st' ! j =
              (if nat (p_dest st1) \<le> j \<and> j < nat (p_dest st1) + k
               then mean_u8 (s1 ! (nat (p_s1 st1) + (j - nat (p_dest st1))))
                            (s2 ! (nat (p_s2 st1) + (j - nat (p_dest st1))))
               else dest st1 ! j))"
    by (rule Suc.IH) (use Suc.prems in \<open>simp_all add: st1_def\<close>)
  then obtain st' where st': "merge_steps k s1 s2 st1 = Some st'"
      "length (dest st') = length (dest st1)"
      "\<And>j. j < length (dest st1) \<Longrightarrow> dest st' ! j =
              (if nat (p_dest st1) \<le> j \<and> j < nat (p_dest st1) + k
               then mean_u8 (s1 ! (nat (p_s1 st1) + (j - nat (p_dest st1))))
                            (s2 ! (nat (p_s2 st1) + (j - nat (p_dest st1))))
               else dest st1 ! j)"
    by blast
  have len1: "length (dest st1) = length (dest st)" by (simp add: st1_def)
  have n1: "nat (p_dest st1) = Suc (nat (p_dest st))" "nat (p_s1 st1) = Suc (nat (p_s1 st))"
      "nat (p_s2 st1) = Suc (nat (p_s2 st))"
    using Suc.prems by (simp_all add: st1_def nat_add_distrib)
  have "\<forall>j < length (dest st). dest st' ! j =
              (if nat (p_dest st) \<le> j \<and> j < nat (p_dest st) + Suc k
               then mean_u8 (s1 ! (nat (p_s1 st) + (j - nat (p_dest st))))
                            (s2 ! (nat (p_s2 st) + (j - nat (p_dest st))))
               else dest st ! j)"
  proof (intro allI impI)
    fix j assume j: "j < length (dest st)"
    consider "j < nat (p_dest st)" | "j = nat (p_dest st)" | "nat (p_dest st) < j" by linarith
    then show "dest st' ! j =
              (if nat (p_dest st) \<le> j \<and> j < nat (p_dest st) + Suc k
               then mean_u8 (s1 ! (nat (p_s1 st) + (j - nat (p_dest st))))
                            (s2 ! (nat (p_s2 st) + (j - nat (p_dest st))))
               else dest st ! j)"
    proof cases
      case 1
      then show ?thesis using st'(3) [of j] j by (simp add: len1 n1) (simp add: st1_def)
    next
      case 2
      then show ?thesis using st'(3) [of j] j by (simp add: len1 n1) (simp add: st1_def)
    next
      case 3
      then have "Suc (nat (p_s1 st)) + (j - Suc (nat (p_dest st))) = nat (p_s1 st) + (j - nat (p_dest st))"
        "Suc (nat (p_s2 st)) + (j - Suc (nat (p_dest st))) = nat (p_s2 st) + (j - nat (p_dest st))"
        by simp_all
      with 3 show ?thesis using st'(3) [of j] j by (simp add: len1 n1) (simp add: st1_def)
    qed
  qed
  with one st'(1,2) len1 show ?case by simp
qed

text \<open>
  How the two loops of \<open>Merge\<close> share the bytes: the unrolled loop stops after
  \<open>8 * ((n - 1) div 8)\<close> bytes and the byte-wise loop writes the others.
\<close>

lemma Merge_loops:
  assumes "Merge dst 0 s1 0 s2 0 n = Some out"
  shows "\<exists>st st'. merge_unrolled s1 s2 (int n - 8) \<lparr>dest = dst, p_dest = 0, p_s1 = 0, p_s2 = 0\<rparr> = Some st \<and>
           p_dest st = int (8 * ((n - 1) div 8)) \<and>
           merge_tail s1 s2 (int n) st = Some st' \<and> dest st' = out"
proof -
  define st0 where "st0 = \<lparr>dest = dst, p_dest = 0, p_s1 = 0, p_s2 = 0\<rparr>"
  from assms obtain st st' where u: "merge_unrolled s1 s2 (int n - 8) st0 = Some st"
    and t: "merge_tail s1 s2 (int n) st = Some st'" and d: "dest st' = out"
    by (auto simp: Merge_def Let_def st0_def bind_eq_Some_conv)
  have m: "nat ((int n - 8 - p_dest st0 + 7) div 8) = (n - 1) div 8"
    by (cases "n = 0") (simp_all add: st0_def nat_div_distrib)
  have "merge_steps (8 * ((n - 1) div 8)) s1 s2 st0 = Some st"
    using u unfolding merge_unrolled_steps m .
  then have "p_dest st = p_dest st0 + int (8 * ((n - 1) div 8))"
    by (rule merge_steps_p_dest)
  with u t d show ?thesis unfolding st0_def by simp
qed

text \<open>
  C1. For byte sequences \<open>a\<close>, \<open>b\<close> and a destination, all of length \<open>n\<close>,
  \<open>Merge\<close> returns, and byte \<open>i\<close> of the destination is the floor of
  \<open>(a[i] + b[i]) / 2\<close> for every \<open>i < n\<close>: the sum is formed on 16 bits and loses
  nothing. \<open>n\<close> is arbitrary: the unrolled loop stops after \<open>8 * ((n - 1) div 8)\<close>
  bytes, and the bytes left, whatever their number, are written one at a time by the
  second loop.
\<close>

theorem Merge_average:
  assumes "length a = n" and "length b = n" and "length dst = n"
  shows "\<exists>out. Merge dst 0 a 0 b 0 n = Some out \<and> length out = n \<and>
           (\<forall>i < n. unat (out ! i) = (unat (a ! i) + unat (b ! i)) div 2) \<and>
           (\<exists>st st'. merge_unrolled a b (int n - 8) \<lparr>dest = dst, p_dest = 0, p_s1 = 0, p_s2 = 0\<rparr>
                       = Some st \<and>
                     p_dest st = int (8 * ((n - 1) div 8)) \<and>
                     merge_tail a b (int n) st = Some st' \<and> dest st' = out)"
proof -
  define st0 where "st0 = \<lparr>dest = dst, p_dest = 0, p_s1 = 0, p_s2 = 0\<rparr>"
  have "\<exists>st'. merge_steps n a b st0 = Some st' \<and> length (dest st') = length (dest st0) \<and>
           (\<forall>j < length (dest st0). dest st' ! j =
              (if nat (p_dest st0) \<le> j \<and> j < nat (p_dest st0) + n
               then mean_u8 (a ! (nat (p_s1 st0) + (j - nat (p_dest st0))))
                            (b ! (nat (p_s2 st0) + (j - nat (p_dest st0))))
               else dest st0 ! j))"
    by (rule merge_steps_result) (use assms in \<open>simp_all add: st0_def\<close>)
  then obtain st' where st': "merge_steps n a b st0 = Some st'" "length (dest st') = n"
    "\<forall>j < n. dest st' ! j = mean_u8 (a ! j) (b ! j)"
    using assms by (auto simp: st0_def)
  then have m: "Merge dst 0 a 0 b 0 n = Some (dest st')"
    by (simp add: Merge_steps st0_def [symmetric])
  from Merge_loops [OF m] st'(2,3) m show ?thesis
    by (intro exI [of _ "dest st'"]) (simp add: unat_mean_u8)
qed

theorem Merge_average_witness:
  "length [1, 2, 3, 4, 5, 6, 7, 8, 255, 255 :: u8] = 10 \<and>
   (\<exists>out. Merge [0, 0, 0, 0, 0, 0, 0, 0, 0, 0] 0
                 [1, 2, 3, 4, 5, 6, 7, 8, 255, 255] 0 [3, 2, 3, 4, 5, 6, 7, 9, 255, 254] 0 10 = Some out \<and>
          length out = 10 \<and>
          (\<forall>i < 10. unat (out ! i) =
             (unat ([1, 2, 3, 4, 5, 6, 7, 8, 255, 255 :: u8] ! i) +
              unat ([3, 2, 3, 4, 5, 6, 7, 9, 255, 254 :: u8] ! i)) div 2))"
proof -
  have l: "length [1, 2, 3, 4, 5, 6, 7, 8, 255, 255 :: u8] = 10"
    "length [3, 2, 3, 4, 5, 6, 7, 9, 255, 254 :: u8] = 10"
    "length [0, 0, 0, 0, 0, 0, 0, 0, 0, 0 :: u8] = 10"
    by simp_all
  from Merge_average [OF l] obtain out where
    "Merge [0, 0, 0, 0, 0, 0, 0, 0, 0, 0] 0
       [1, 2, 3, 4, 5, 6, 7, 8, 255, 255] 0 [3, 2, 3, 4, 5, 6, 7, 9, 255, 254] 0 10 = Some out"
    "length out = 10"
    "\<forall>i < 10. unat (out ! i) =
       (unat ([1, 2, 3, 4, 5, 6, 7, 8, 255, 255 :: u8] ! i) +
        unat ([3, 2, 3, 4, 5, 6, 7, 9, 255, 254 :: u8] ! i)) div 2"
    by blast
  with l(1) show ?thesis by blast
qed

section \<open>Create: the mode and the double-rate flag\<close>

lemmas mode_defs = DEINTERLACE_DISCARD_def DEINTERLACE_MEAN_def DEINTERLACE_BLEND_def
  DEINTERLACE_BOB_def DEINTERLACE_LINEAR_def

lemmas chroma_defs = I420_def IYUV_def YV12_def I422_def VLC_FOURCC_def

lemma Create_known:
  "Create (Some sys0) (Some ''discard'') = (0, Some (fresh_mode sys0 DEINTERLACE_DISCARD False), [])"
  "Create (Some sys0) (Some ''mean'') = (0, Some (fresh_mode sys0 DEINTERLACE_MEAN False), [])"
  "Create (Some sys0) (Some ''blend'') = (0, Some (fresh_mode sys0 DEINTERLACE_BLEND False), [])"
  "Create (Some sys0) (Some ''average'') = (0, Some (fresh_mode sys0 DEINTERLACE_BLEND False), [])"
  "Create (Some sys0) (Some ''combine-fields'') =
     (0, Some (fresh_mode sys0 DEINTERLACE_BLEND False), [])"
  "Create (Some sys0) (Some ''bob'') = (0, Some (fresh_mode sys0 DEINTERLACE_BOB True), [])"
  "Create (Some sys0) (Some ''progressive-scan'') =
     (0, Some (fresh_mode sys0 DEINTERLACE_BOB True), [])"
  "Create (Some sys0) (Some ''linear'') = (0, Some (fresh_mode sys0 DEINTERLACE_LINEAR True), [])"
  by (simp_all add: Create_def fresh_mode_def)

lemma Create_other:
  assumes "m \<notin> {''discard'', ''mean'', ''blend'', ''average'', ''combine-fields'', ''bob'',
             ''progressive-scan'', ''linear''}"
  shows "Create (Some sys0) (Some m) =
           (0, Some (fresh_mode sys0 DEINTERLACE_DISCARD False),
            [Msg_Err ''no valid deinterlace mode provided, using \"discard\"''])"
  using assms by (simp add: Create_def fresh_mode_def)

lemma Create_absent:
  "Create (Some sys0) None =
     (0, Some (fresh_mode sys0 DEINTERLACE_DISCARD False),
      [Msg_Err ''configuration variable deinterlace-mode empty'',
       Msg_Err ''no deinterlace mode provided, using \"discard\"''])"
  by (simp add: Create_def fresh_mode_def)

lemma Create_good: "good_sys (Create (Some sys0) psz)"
proof (cases psz)
  case None
  then show ?thesis by (simp add: Create_def good_sys_def mode_defs)
next
  case (Some m)
  show ?thesis
    unfolding Some Create_def Let_def option.case
    by (simp only: if_split [where P = good_sys]) (simp add: good_sys_def mode_defs)
qed

lemma Create_flag:
  assumes "Create (Some sys0) psz = (rc, Some sys, log)"
  shows "b_double_rate sys \<longleftrightarrow> i_mode sys = DEINTERLACE_BOB \<or> i_mode sys = DEINTERLACE_LINEAR"
  using Create_good [of sys0 psz] assms by (simp add: good_sys_def)

text \<open>
  C5. Once \<open>malloc\<close> has succeeded, \<open>Create\<close> returns 0 and selects Discard for
  \<open>discard\<close>, Mean for \<open>mean\<close>, Blend for \<open>blend\<close>, \<open>average\<close> and
  \<open>combine-fields\<close>, Bob for \<open>bob\<close> and \<open>progressive-scan\<close>, Linear for
  \<open>linear\<close>, with no message. Every other string and an absent string select Discard,
  still with the return value 0, and the choice is reported: one message for an unknown
  string, two for an absent one, sent with \<open>msg_Err\<close>. On every path the double-rate
  flag is set exactly when the mode is Bob or Linear.
\<close>

theorem Create_mode_mapping:
  "Create (Some sys0) (Some ''discard'') = (0, Some (fresh_mode sys0 DEINTERLACE_DISCARD False), []) \<and>
   Create (Some sys0) (Some ''mean'') = (0, Some (fresh_mode sys0 DEINTERLACE_MEAN False), []) \<and>
   Create (Some sys0) (Some ''blend'') = (0, Some (fresh_mode sys0 DEINTERLACE_BLEND False), []) \<and>
   Create (Some sys0) (Some ''average'') = (0, Some (fresh_mode sys0 DEINTERLACE_BLEND False), []) \<and>
   Create (Some sys0) (Some ''combine-fields'') =
     (0, Some (fresh_mode sys0 DEINTERLACE_BLEND False), []) \<and>
   Create (Some sys0) (Some ''bob'') = (0, Some (fresh_mode sys0 DEINTERLACE_BOB True), []) \<and>
   Create (Some sys0) (Some ''progressive-scan'') =
     (0, Some (fresh_mode sys0 DEINTERLACE_BOB True), []) \<and>
   Create (Some sys0) (Some ''linear'') = (0, Some (fresh_mode sys0 DEINTERLACE_LINEAR True), []) \<and>
   (\<forall>m. m \<notin> {''discard'', ''mean'', ''blend'', ''average'', ''combine-fields'', ''bob'',
             ''progressive-scan'', ''linear''} \<longrightarrow>
        Create (Some sys0) (Some m) =
          (0, Some (fresh_mode sys0 DEINTERLACE_DISCARD False),
           [Msg_Err ''no valid deinterlace mode provided, using \"discard\"''])) \<and>
   Create (Some sys0) None =
     (0, Some (fresh_mode sys0 DEINTERLACE_DISCARD False),
      [Msg_Err ''configuration variable deinterlace-mode empty'',
       Msg_Err ''no deinterlace mode provided, using \"discard\"'']) \<and>
   (\<forall>psz rc sys log. Create (Some sys0) psz = (rc, Some sys, log) \<longrightarrow>
        (b_double_rate sys \<longleftrightarrow> i_mode sys = DEINTERLACE_BOB \<or> i_mode sys = DEINTERLACE_LINEAR))"
  using Create_known [of sys0] Create_other [of _ sys0] Create_absent [of sys0]
    Create_flag [of sys0]
  by (intro conjI allI impI) assumption+

theorem Create_mode_mapping_witness:
  "''weave'' \<notin> {''discard'', ''mean'', ''blend'', ''average'', ''combine-fields'', ''bob'',
             ''progressive-scan'', ''linear''} \<and>
   Create (Some sysA) (Some ''weave'') =
     (0, Some (fresh_mode sysA DEINTERLACE_DISCARD False),
      [Msg_Err ''no valid deinterlace mode provided, using \"discard\"'']) \<and>
   Create (Some sysA) (Some ''bob'') = (0, Some (fresh_mode sysA DEINTERLACE_BOB True), []) \<and>
   (b_double_rate (fresh_mode sysA DEINTERLACE_BOB True) \<longleftrightarrow>
      i_mode (fresh_mode sysA DEINTERLACE_BOB True) = DEINTERLACE_BOB \<or>
      i_mode (fresh_mode sysA DEINTERLACE_BOB True) = DEINTERLACE_LINEAR)"
proof -
  note t = Create_mode_mapping [of sysA]
  have w: "''weave'' \<notin> {''discard'', ''mean'', ''blend'', ''average'', ''combine-fields'', ''bob'',
             ''progressive-scan'', ''linear''}" by simp
  from t have o: "\<forall>m. m \<notin> {''discard'', ''mean'', ''blend'', ''average'', ''combine-fields'', ''bob'',
             ''progressive-scan'', ''linear''} \<longrightarrow>
        Create (Some sysA) (Some m) =
          (0, Some (fresh_mode sysA DEINTERLACE_DISCARD False),
           [Msg_Err ''no valid deinterlace mode provided, using \"discard\"''])"
    by (elim conjE)
  from t have b: "Create (Some sysA) (Some ''bob'') = (0, Some (fresh_mode sysA DEINTERLACE_BOB True), [])"
    by (elim conjE)
  from t have f: "\<forall>psz rc sys log. Create (Some sysA) psz = (rc, Some sys, log) \<longrightarrow>
        (b_double_rate sys \<longleftrightarrow> i_mode sys = DEINTERLACE_BOB \<or> i_mode sys = DEINTERLACE_LINEAR)"
    by (elim conjE)
  have "Create (Some sysA) (Some ''weave'') =
     (0, Some (fresh_mode sysA DEINTERLACE_DISCARD False),
      [Msg_Err ''no valid deinterlace mode provided, using \"discard\"''])"
    using o [rule_format, OF w] .
  moreover have "b_double_rate (fresh_mode sysA DEINTERLACE_BOB True) \<longleftrightarrow>
      i_mode (fresh_mode sysA DEINTERLACE_BOB True) = DEINTERLACE_BOB \<or>
      i_mode (fresh_mode sysA DEINTERLACE_BOB True) = DEINTERLACE_LINEAR"
    using f [rule_format, OF b] .
  ultimately show ?thesis using w b by (intro conjI)
qed

section \<open>Init: the format asked of the real output\<close>

lemma Init_blend_height:
  assumes mode: "i_mode (p_sys vout) = DEINTERLACE_BLEND"
    and chroma: "i_chroma (render vout) = I420 \<or> i_chroma (render vout) = IYUV \<or>
                 i_chroma (render vout) = YV12 \<or> i_chroma (render vout) = I422"
  shows "map i_height (requested (Init spawned vout)) = [i_height (render vout)]"
proof (cases "i_chroma (render vout) = I422")
  case True
  have "I422 \<noteq> I420" "I422 \<noteq> IYUV" "I422 \<noteq> YV12" by (simp_all add: chroma_defs)
  with True show ?thesis by (simp add: Init_def Let_def requested_def del: not_not)
next
  case False
  with chroma mode
  have "i_chroma (render vout) = I420 \<or> i_chroma (render vout) = IYUV \<or> i_chroma (render vout) = YV12"
    and "i_mode (p_sys vout) = DEINTERLACE_BLEND \<or> i_mode (p_sys vout) = DEINTERLACE_LINEAR"
    and "\<not> (i_mode (p_sys vout) = DEINTERLACE_BOB \<or> i_mode (p_sys vout) = DEINTERLACE_MEAN \<or>
         i_mode (p_sys vout) = DEINTERLACE_DISCARD)"
    and "\<not> \<not> (i_chroma (render vout) = I420 \<or> i_chroma (render vout) = IYUV \<or>
              i_chroma (render vout) = YV12 \<or> i_chroma (render vout) = I422)"
    by (auto simp: mode_defs)
  then show ?thesis by (simp add: Init_def Let_def requested_def del: not_not)
qed

text \<open>
  C8, as amended. For the formats I420, IYUV and YV12, \<open>Init\<close> asks the real output once,
  for the input width, chroma and aspect, with half the input height (C division) in
  the modes Discard, Bob and Mean and the full input height in the modes Blend and
  Linear. For I422 it asks once for the full input height and the chroma I420, whatever
  the mode.
\<close>

theorem Init_requested_height:
  "((i_chroma (render vout) = I420 \<or> i_chroma (render vout) = IYUV \<or> i_chroma (render vout) = YV12) \<and>
    (i_mode (p_sys vout) = DEINTERLACE_DISCARD \<or> i_mode (p_sys vout) = DEINTERLACE_BOB \<or>
     i_mode (p_sys vout) = DEINTERLACE_MEAN) \<longrightarrow>
      requested (Init spawned vout) =
        [\<lparr>i_chroma = i_chroma (render vout), i_width = i_width (render vout),
          i_height = i_height (render vout) sdiv 2, i_aspect = i_aspect (render vout)\<rparr>]) \<and>
   ((i_chroma (render vout) = I420 \<or> i_chroma (render vout) = IYUV \<or> i_chroma (render vout) = YV12) \<and>
    (i_mode (p_sys vout) = DEINTERLACE_BLEND \<or> i_mode (p_sys vout) = DEINTERLACE_LINEAR) \<longrightarrow>
      requested (Init spawned vout) =
        [\<lparr>i_chroma = i_chroma (render vout), i_width = i_width (render vout),
          i_height = i_height (render vout), i_aspect = i_aspect (render vout)\<rparr>]) \<and>
   (i_chroma (render vout) = I422 \<longrightarrow>
      requested (Init spawned vout) =
        [\<lparr>i_chroma = I420, i_width = i_width (render vout),
          i_height = i_height (render vout), i_aspect = i_aspect (render vout)\<rparr>])"
proof (intro conjI impI)
  assume "(i_chroma (render vout) = I420 \<or> i_chroma (render vout) = IYUV \<or> i_chroma (render vout) = YV12) \<and>
          (i_mode (p_sys vout) = DEINTERLACE_DISCARD \<or> i_mode (p_sys vout) = DEINTERLACE_BOB \<or>
           i_mode (p_sys vout) = DEINTERLACE_MEAN)"
  then have "i_chroma (render vout) = I420 \<or> i_chroma (render vout) = IYUV \<or> i_chroma (render vout) = YV12"
    and "i_mode (p_sys vout) = DEINTERLACE_BOB \<or> i_mode (p_sys vout) = DEINTERLACE_MEAN \<or>
         i_mode (p_sys vout) = DEINTERLACE_DISCARD"
    and "\<not> \<not> (i_chroma (render vout) = I420 \<or> i_chroma (render vout) = IYUV \<or>
              i_chroma (render vout) = YV12 \<or> i_chroma (render vout) = I422)"
    by blast+
  then show "requested (Init spawned vout) =
        [\<lparr>i_chroma = i_chroma (render vout), i_width = i_width (render vout),
          i_height = i_height (render vout) sdiv 2, i_aspect = i_aspect (render vout)\<rparr>]"
    by (simp add: Init_def Let_def requested_def del: not_not)
next
  assume "(i_chroma (render vout) = I420 \<or> i_chroma (render vout) = IYUV \<or> i_chroma (render vout) = YV12) \<and>
          (i_mode (p_sys vout) = DEINTERLACE_BLEND \<or> i_mode (p_sys vout) = DEINTERLACE_LINEAR)"
  then have "i_chroma (render vout) = I420 \<or> i_chroma (render vout) = IYUV \<or> i_chroma (render vout) = YV12"
    and "i_mode (p_sys vout) = DEINTERLACE_BLEND \<or> i_mode (p_sys vout) = DEINTERLACE_LINEAR"
    and "\<not> (i_mode (p_sys vout) = DEINTERLACE_BOB \<or> i_mode (p_sys vout) = DEINTERLACE_MEAN \<or>
         i_mode (p_sys vout) = DEINTERLACE_DISCARD)"
    and "\<not> \<not> (i_chroma (render vout) = I420 \<or> i_chroma (render vout) = IYUV \<or>
              i_chroma (render vout) = YV12 \<or> i_chroma (render vout) = I422)"
    by (auto simp: mode_defs)
  then show "requested (Init spawned vout) =
        [\<lparr>i_chroma = i_chroma (render vout), i_width = i_width (render vout),
          i_height = i_height (render vout), i_aspect = i_aspect (render vout)\<rparr>]"
    by (simp add: Init_def Let_def requested_def del: not_not)
next
  assume a: "i_chroma (render vout) = I422"
  have "I422 \<noteq> I420" "I422 \<noteq> IYUV" "I422 \<noteq> YV12" by (simp_all add: chroma_defs)
  with a show "requested (Init spawned vout) =
        [\<lparr>i_chroma = I420, i_width = i_width (render vout),
          i_height = i_height (render vout), i_aspect = i_aspect (render vout)\<rparr>]"
    by (simp add: Init_def Let_def requested_def del: not_not)
qed

theorem Init_requested_height_witness:
  "((i_chroma (render vout_bob) = I420 \<or> i_chroma (render vout_bob) = IYUV \<or>
     i_chroma (render vout_bob) = YV12) \<and>
    (i_mode (p_sys vout_bob) = DEINTERLACE_DISCARD \<or> i_mode (p_sys vout_bob) = DEINTERLACE_BOB \<or>
     i_mode (p_sys vout_bob) = DEINTERLACE_MEAN)) \<and>
   requested (Init None vout_bob) =
     [\<lparr>i_chroma = i_chroma (render vout_bob), i_width = i_width (render vout_bob),
       i_height = i_height (render vout_bob) sdiv 2, i_aspect = i_aspect (render vout_bob)\<rparr>]"
proof -
  have p: "(i_chroma (render vout_bob) = I420 \<or> i_chroma (render vout_bob) = IYUV \<or>
     i_chroma (render vout_bob) = YV12) \<and>
    (i_mode (p_sys vout_bob) = DEINTERLACE_DISCARD \<or> i_mode (p_sys vout_bob) = DEINTERLACE_BOB \<or>
     i_mode (p_sys vout_bob) = DEINTERLACE_MEAN)"
    by (simp add: vout_bob_def)
  from Init_requested_height [of vout_bob None, THEN conjunct1, THEN mp, OF p] p
  show ?thesis by (rule conjI [rotated])
qed

text \<open>
  The claim as stated fails for I422: in the mode Discard a 480-line I422 input makes
  \<open>Init\<close> ask for 480 lines, not 240.
\<close>

theorem Init_I422_discard_full_height:
  "i_mode (p_sys vout_422) = DEINTERLACE_DISCARD \<and> i_chroma (render vout_422) = I422 \<and>
   map i_height (requested (Init None vout_422)) = [480] \<and>
   i_height (render vout_422) sdiv 2 = 240"
  by (simp add: vout_422_def Init_def requested_def Let_def chroma_defs mode_defs signed_divide_int_def)

section \<open>Render: acquisition and cancellation\<close>

lemma acquire_skip:
  "acquire (replicate j (NoPicture False False) @ rest) = acquire rest"
  by (induction j) simp_all

text \<open>
  C9. When \<open>b_die\<close> or \<open>b_error\<close> is set after any number \<open>j\<close> of failed polls,
  \<open>Render\<close> returns at once, in every mode: nothing is displayed or given back, and
  the later answers of the sink are untouched. In double rate, when the flag is set
  after the first picture was acquired and \<open>k\<close> further polls failed, \<open>Render\<close>
  returns with that picture given back to the sink and nothing displayed.
\<close>

theorem Render_cancelled:
  assumes sink: "p_vout (p_sys vout) = Some sink"
    and cancel: "die \<or> err"
  shows "(polls sink = replicate j (NoPicture False False) @ NoPicture die err # rest \<longrightarrow>
            Render vout p_pic = Some (set_sink vout (sink\<lparr>polls := rest\<rparr>))) \<and>
         (b_double_rate (p_sys vout) \<and>
          polls sink = replicate j (NoPicture False False) @ Picture pic0 #
                       replicate k (NoPicture False False) @ NoPicture die err # rest \<longrightarrow>
            Render vout p_pic =
              Some (set_sink vout (sink\<lparr>polls := rest,
                      destroyed := destroyed sink @ [vout_DatePicture pic0 (date p_pic)]\<rparr>)))"
  using sink cancel
  by (auto simp: Render_def Render_acquire_def acquire_skip Let_def vout_DestroyPicture_def)

theorem Render_cancelled_witness:
  "Render (vout_ex DEINTERLACE_LINEAR True 0
       [NoPicture False False, Picture out_half, NoPicture False False, NoPicture False False,
        NoPicture True False, Picture out_half]) (frame 100) =
     Some (set_sink (vout_ex DEINTERLACE_LINEAR True 0 [])
        \<lparr>polls = [Picture out_half], displayed = [],
         destroyed = [vout_DatePicture out_half 100]\<rparr>) \<and>
   Render (vout_ex DEINTERLACE_BLEND False 0
       [NoPicture False False, NoPicture False True, Picture out_half]) (frame 100) =
     Some (set_sink (vout_ex DEINTERLACE_BLEND False 0 [])
        \<lparr>polls = [Picture out_half], displayed = [], destroyed = []\<rparr>)"
proof -
  define ps where "ps = [NoPicture False False, Picture out_half, NoPicture False False,
        NoPicture False False, NoPicture True False, Picture out_half]"
  define qs where "qs = [NoPicture False False, NoPicture False True, Picture out_half]"
  have s: "p_vout (p_sys (vout_ex DEINTERLACE_LINEAR True 0 ps)) = Some (sink_ex ps)"
    and t: "p_vout (p_sys (vout_ex DEINTERLACE_BLEND False 0 qs)) = Some (sink_ex qs)"
    by (simp_all add: vout_ex_def)
  have c: "True \<or> False" and c': "False \<or> True" by simp_all
  have p: "b_double_rate (p_sys (vout_ex DEINTERLACE_LINEAR True 0 ps)) \<and>
           polls (sink_ex ps) = replicate 1 (NoPicture False False) @ Picture out_half #
                       replicate 2 (NoPicture False False) @ NoPicture True False # [Picture out_half]"
    by (simp add: vout_ex_def sink_ex_def ps_def numeral_2_eq_2)
  have q: "polls (sink_ex qs) = replicate 1 (NoPicture False False) @ NoPicture False True # [Picture out_half]"
    by (simp add: sink_ex_def qs_def)
  from Render_cancelled [OF s c, THEN conjunct2, THEN mp, OF p, of "frame 100"]
  have 1: "Render (vout_ex DEINTERLACE_LINEAR True 0 ps) (frame 100) =
     Some (set_sink (vout_ex DEINTERLACE_LINEAR True 0 [])
        \<lparr>polls = [Picture out_half], displayed = [],
         destroyed = [vout_DatePicture out_half 100]\<rparr>)"
    by (simp add: set_sink_def vout_ex_def sink_ex_def frame_def)
  from Render_cancelled [OF t c', THEN conjunct1, THEN mp, OF q, of "frame 100"]
  have 2: "Render (vout_ex DEINTERLACE_BLEND False 0 qs) (frame 100) =
     Some (set_sink (vout_ex DEINTERLACE_BLEND False 0 [])
        \<lparr>polls = [Picture out_half], displayed = [], destroyed = []\<rparr>)"
    by (simp add: set_sink_def vout_ex_def sink_ex_def)
  from 1 2 show ?thesis unfolding ps_def qs_def by (rule conjI)
qed

section \<open>The row transforms\<close>

lemma memcpy_wrote:
  assumes "d + n \<le> length dst" "s + n \<le> length src"
  shows "\<exists>out. pf_memcpy dst (int d) src (int s) n = Some out \<and> wrote dst out d (take n (drop s src))"
proof -
  define out where "out = take d dst @ take n (drop s src) @ drop (d + n) dst"
  have m: "pf_memcpy dst (int d) src (int s) n = Some out"
    using assms by (simp add: pf_memcpy_def out_def)
  have l: "length (take n (drop s src)) = n" using assms by simp
  have "wrote dst out d (take n (drop s src))"
    unfolding wrote_def l
  proof (intro conjI allI impI)
    show "length out = length dst" using assms by (simp add: out_def)
    show "d + n \<le> length dst" by fact
    fix i assume i: "i < length dst"
    have lA: "length (take d dst) = d" using assms by simp
    consider "i < d" | "d \<le> i" "i < d + n" | "d + n \<le> i" by linarith
    then show "out ! i = (if d \<le> i \<and> i < d + n then take n (drop s src) ! (i - d) else dst ! i)"
    proof cases
      case 1
      with assms i show ?thesis by (simp add: out_def nth_append)
    next
      case 2
      then have "i - d < n" by simp
      with 2 assms i show ?thesis by (simp add: out_def nth_append)
    next
      case 3
      then have "\<not> i < d" "\<not> i - d < n" "d + n + (i - d - n) = i" by simp_all
      with 3 assms i show ?thesis by (simp add: out_def nth_append)
    qed
  qed
  with m show ?thesis by blast
qed

lemma Merge_wrote:
  assumes "d + n \<le> length dst" "p1 + n \<le> length s1" "p2 + n \<le> length s2"
  shows "\<exists>out. Merge dst (int d) s1 (int p1) s2 (int p2) n = Some out \<and>
           wrote dst out d (map2 mean_u8 (take n (drop p1 s1)) (take n (drop p2 s2)))"
proof -
  define st0 where "st0 = \<lparr>dest = dst, p_dest = int d, p_s1 = int p1, p_s2 = int p2\<rparr>"
  have "\<exists>st'. merge_steps n s1 s2 st0 = Some st' \<and> length (dest st') = length (dest st0) \<and>
           (\<forall>j < length (dest st0). dest st' ! j =
              (if nat (p_dest st0) \<le> j \<and> j < nat (p_dest st0) + n
               then mean_u8 (s1 ! (nat (p_s1 st0) + (j - nat (p_dest st0))))
                            (s2 ! (nat (p_s2 st0) + (j - nat (p_dest st0))))
               else dest st0 ! j))"
    by (rule merge_steps_result) (use assms in \<open>simp_all add: st0_def\<close>)
  then obtain st' where st': "merge_steps n s1 s2 st0 = Some st'" "length (dest st') = length dst"
    "\<And>j. j < length dst \<Longrightarrow> dest st' ! j =
       (if d \<le> j \<and> j < d + n then mean_u8 (s1 ! (p1 + (j - d))) (s2 ! (p2 + (j - d))) else dst ! j)"
    by (auto simp: st0_def)
  have m: "Merge dst (int d) s1 (int p1) s2 (int p2) n = Some (dest st')"
    by (simp add: Merge_steps st0_def [symmetric] st'(1))
  have l: "length (map2 mean_u8 (take n (drop p1 s1)) (take n (drop p2 s2))) = n"
    using assms by simp
  have "wrote dst (dest st') d (map2 mean_u8 (take n (drop p1 s1)) (take n (drop p2 s2)))"
    unfolding wrote_def l
  proof (intro conjI allI impI)
    show "length (dest st') = length dst" by fact
    show "d + n \<le> length dst" by fact
    fix i assume i: "i < length dst"
    show "dest st' ! i = (if d \<le> i \<and> i < d + n
            then map2 mean_u8 (take n (drop p1 s1)) (take n (drop p2 s2)) ! (i - d) else dst ! i)"
      using assms i st'(3) [OF i] by (auto simp: add.commute)
  qed
  with m show ?thesis by blast
qed

lemma row_nth: "i < P \<Longrightarrow> k * P + i < length buf \<Longrightarrow> row P buf k ! i = buf ! (k * P + i)"
  by (simp add: row_def)

lemma length_row: "length (row P buf k) = min P (length buf - k * P)"
  by (simp add: row_def)

lemma rows_step: "k < k' \<Longrightarrow> k * P + P \<le> k' * P" for k :: nat
proof -
  assume "k < k'"
  then have "Suc k * P \<le> k' * P" by (intro mult_le_mono1) simp
  then show ?thesis by (simp add: add.commute)
qed

lemma wrote_row:
  assumes w: "wrote dst out (k * P) c" and c: "length c = P"
  shows "row P out k = c" and "k' \<noteq> k \<Longrightarrow> row P out k' = row P dst k'"
proof -
  from w c have len: "length out = length dst" and fit: "k * P + P \<le> length dst"
    and nth: "\<And>i. i < length dst \<Longrightarrow>
        out ! i = (if k * P \<le> i \<and> i < k * P + P then c ! (i - k * P) else dst ! i)"
    by (auto simp: wrote_def)
  show "row P out k = c"
  proof (rule nth_equalityI)
    show "length (row P out k) = length c" using fit len c by (simp add: length_row)
    fix i assume "i < length (row P out k)"
    then have i: "i < P" by (simp add: length_row)
    with fit have "k * P + i < length dst" by simp
    then show "row P out k ! i = c ! i"
      using i len nth [of "k * P + i"] by (simp add: row_nth)
  qed
  show "row P out k' = row P dst k'" if ne: "k' \<noteq> k"
  proof (rule nth_equalityI)
    show "length (row P out k') = length (row P dst k')" by (simp add: length_row len)
    fix i assume "i < length (row P out k')"
    then have "i < P" "i < length dst - k' * P" by (simp_all add: length_row len)
    then have i: "i < P" "k' * P + i < length dst" by linarith+
    have "\<not> (k * P \<le> k' * P + i \<and> k' * P + i < k * P + P)"
    proof (cases "k' < k")
      case True
      from rows_step [OF this, of P] i show ?thesis by simp
    next
      case False
      with ne have "k < k'" by simp
      from rows_step [OF this, of P] show ?thesis by simp
    qed
    with nth [of "k' * P + i"] i have "out ! (k' * P + i) = dst ! (k' * P + i)" by auto
    then show "row P out k' ! i = row P dst k' ! i"
      using i len by (simp add: row_nth)
  qed
qed

lemma row_full: "k * P + P \<le> length buf \<Longrightarrow> length (row P buf k) = P"
  by (simp add: length_row)

lemma memcpy_row:
  assumes "k * P + P \<le> length dst" "j * P + P \<le> length src"
  shows "\<exists>out. pf_memcpy dst (int (k * P)) src (int (j * P)) P = Some out \<and>
           length out = length dst \<and> row P out k = row P src j \<and>
           (\<forall>k'. k' \<noteq> k \<longrightarrow> row P out k' = row P dst k')"
proof -
  from memcpy_wrote [OF assms] obtain out where
    m: "pf_memcpy dst (int (k * P)) src (int (j * P)) P = Some out"
    and w: "wrote dst out (k * P) (row P src j)"
    by (auto simp: row_def)
  have l: "length (row P src j) = P" using assms(2) by (rule row_full)
  from wrote_row [OF w l] m w show ?thesis by (auto simp: wrote_def)
qed

lemma Merge_row:
  assumes "k * P + P \<le> length dst" "i * P + P \<le> length src" "j * P + P \<le> length src"
  shows "\<exists>out. Merge dst (int (k * P)) src (int (i * P)) src (int (j * P)) P = Some out \<and>
           length out = length dst \<and>
           row P out k = map2 mean_u8 (row P src i) (row P src j) \<and>
           (\<forall>k'. k' \<noteq> k \<longrightarrow> row P out k' = row P dst k')"
proof -
  from Merge_wrote [OF assms] obtain out where
    m: "Merge dst (int (k * P)) src (int (i * P)) src (int (j * P)) P = Some out"
    and w: "wrote dst out (k * P) (map2 mean_u8 (row P src i) (row P src j))"
    by (auto simp: row_def)
  have l: "length (map2 mean_u8 (row P src i) (row P src j)) = P"
    using assms(2,3) by (simp add: row_full)
  from wrote_row [OF w l] m w show ?thesis by (auto simp: wrote_def)
qed

lemma to_size_t_int [simp]: "to_size_t (int n) = Some n"
  by (simp add: to_size_t_def)

lemma bob_rows_result:
  assumes "0 < P"
    and "p_out = int (b * P)" "p_in = int (j * P)" "p_end = int ((b + m) * P)"
    and "(b + m) * P \<le> length out"
    and "0 < m \<Longrightarrow> (j + 2 * (m - 1)) * P + P \<le> length src"
  shows "\<exists>out'. bob_rows src (int P) p_end out p_out p_in = Some out' \<and>
           length out' = length out \<and>
           (\<forall>k < m. row P out' (b + k) = row P src (j + 2 * k)) \<and>
           (\<forall>k'. k' < b \<or> b + m \<le> k' \<longrightarrow> row P out' k' = row P out k')"
  using assms
proof (induction m arbitrary: b j out p_out p_in)
  case 0
  then show ?case by (subst bob_rows.simps) simp
next
  case (Suc m)
  have "b * P < (b + Suc m) * P" using Suc.prems(1) by (simp add: add_mult_distrib)
  then have lt: "p_out < p_end" unfolding Suc.prems(2,4) by (simp only: of_nat_less_iff)
  have fit_out: "b * P + P \<le> length out"
    using Suc.prems(5) by (simp add: algebra_simps)
  have "j * P \<le> (j + 2 * m) * P" by (intro mult_le_mono1) simp
  moreover have src_fit: "(j + 2 * m) * P + P \<le> length src" using Suc.prems(6) by simp
  ultimately have fit_src: "j * P + P \<le> length src" by linarith
  from memcpy_row [OF fit_out fit_src] obtain out1 where
    c: "pf_memcpy out (int (b * P)) src (int (j * P)) P = Some out1"
    and l1: "length out1 = length out" and r1: "row P out1 b = row P src j"
    and f1: "\<And>k'. k' \<noteq> b \<Longrightarrow> row P out1 k' = row P out k'"
    by blast
  have "\<exists>out'. bob_rows src (int P) p_end out1 (p_out + int P) (p_in + 2 * int P) = Some out' \<and>
           length out' = length out1 \<and>
           (\<forall>k < m. row P out' (Suc b + k) = row P src (j + 2 + 2 * k)) \<and>
           (\<forall>k'. k' < Suc b \<or> Suc b + m \<le> k' \<longrightarrow> row P out' k' = row P out1 k')"
  proof (rule Suc.IH [OF \<open>0 < P\<close>])
    show "p_out + int P = int (Suc b * P)" using Suc.prems(2) by (simp add: algebra_simps)
    show "p_in + 2 * int P = int ((j + 2) * P)" using Suc.prems(3) by (simp add: algebra_simps)
    show "p_end = int ((Suc b + m) * P)" using Suc.prems(4) by simp
    show "(Suc b + m) * P \<le> length out1" using Suc.prems(5) l1 by simp
    show "(j + 2 + 2 * (m - 1)) * P + P \<le> length src" if "0 < m"
    proof -
      from that have e: "j + 2 + 2 * (m - 1) = j + 2 * m" by simp
      show ?thesis unfolding e by (rule src_fit)
    qed
  qed
  then obtain out' where
    rec: "bob_rows src (int P) p_end out1 (p_out + int P) (p_in + 2 * int P) = Some out'"
    and l': "length out' = length out1"
    and r': "\<And>k. k < m \<Longrightarrow> row P out' (Suc b + k) = row P src (j + 2 + 2 * k)"
    and f': "\<And>k'. k' < Suc b \<or> Suc b + m \<le> k' \<Longrightarrow> row P out' k' = row P out1 k'"
    by blast
  have run: "bob_rows src (int P) p_end out p_out p_in = Some out'"
    using lt c rec Suc.prems(2,3) by (subst bob_rows.simps) simp
  have rows: "row P out' (b + k) = row P src (j + 2 * k)" if "k < Suc m" for k
  proof (cases k)
    case 0
    with f' [of b] r1 show ?thesis by simp
  next
    case (Suc k')
    with that r' [of k'] show ?thesis by simp
  qed
  have frame: "row P out' k' = row P out k'" if "k' < b \<or> b + Suc m \<le> k'" for k'
  proof -
    from that have "k' < Suc b \<or> Suc b + m \<le> k'" "k' \<noteq> b" by auto
    with f' [of k'] f1 [of k'] show ?thesis by simp
  qed
  from run l' l1 rows frame show ?case by auto
qed

lemma well_formed_nat:
  assumes "well_formed pl"
  shows "0 < nat (i_pitch pl)" "int (nat (i_pitch pl)) = i_pitch pl" "int (nat (i_lines pl)) = i_lines pl"
    "nat (i_lines pl) * nat (i_pitch pl) \<le> length (p_pixels pl)"
proof -
  from assms have p: "0 < i_pitch pl" and l: "0 \<le> i_lines pl"
    and b: "i_pitch pl * i_lines pl \<le> int (length (p_pixels pl))"
    by (auto simp: well_formed_def)
  from p l show "0 < nat (i_pitch pl)" "int (nat (i_pitch pl)) = i_pitch pl"
    "int (nat (i_lines pl)) = i_lines pl" by simp_all
  have "int (nat (i_lines pl) * nat (i_pitch pl)) = i_pitch pl * i_lines pl"
    using p l by simp
  with b show "nat (i_lines pl) * nat (i_pitch pl) \<le> length (p_pixels pl)" by linarith
qed

lemma RenderBob_plane_rows:
  assumes chroma: "chroma = I420 \<or> chroma = IYUV \<or> chroma = YV12"
    and fits: "bob_fits outp inp"
    and f: "f = 0 \<or> f = 1"
  shows "\<exists>outp'. RenderBob_plane chroma f n outp inp = Some outp' \<and>
           i_lines outp' = i_lines outp \<and> i_pitch outp' = i_pitch outp \<and>
           (\<forall>k < nat (i_lines outp). plane_row outp' k = plane_row inp (2 * k + nat f))"
proof -
  define P where "P = nat (i_pitch inp)"
  define L where "L = nat (i_lines outp)"
  from fits have wo: "well_formed outp" and wi: "well_formed inp"
    and pe: "i_pitch outp = i_pitch inp" and half: "2 * i_lines outp \<le> i_lines inp"
    by (auto simp: bob_fits_def)
  note no = well_formed_nat [OF wo] and ni = well_formed_nat [OF wi]
  have P: "0 < P" "int P = i_pitch inp" using ni by (simp_all add: P_def)
  have Li: "int L = i_lines outp" using no by (simp add: L_def)
  have half': "2 * L \<le> nat (i_lines inp)" using half Li by linarith
  have "\<exists>out'. bob_rows (p_pixels inp) (int P) (int ((0 + L) * P)) (p_pixels outp)
                  (int (0 * P)) (int (nat f * P)) = Some out' \<and>
           length out' = length (p_pixels outp) \<and>
           (\<forall>k < L. row P out' (0 + k) = row P (p_pixels inp) (nat f + 2 * k)) \<and>
           (\<forall>k'. k' < 0 \<or> 0 + L \<le> k' \<longrightarrow> row P out' k' = row P (p_pixels outp) k')"
  proof (rule bob_rows_result [OF P(1) refl refl refl])
    show "(0 + L) * P \<le> length (p_pixels outp)"
      using no(4) pe by (simp add: L_def P_def)
    show "(nat f + 2 * (L - 1)) * P + P \<le> length (p_pixels inp)" if "0 < L"
    proof -
      from f that half' have "nat f + 2 * (L - 1) + 1 \<le> nat (i_lines inp)" by auto
      then have "(nat f + 2 * (L - 1) + 1) * P \<le> nat (i_lines inp) * P" by (rule mult_le_mono1)
      with ni(4) show ?thesis by (simp add: P_def)
    qed
  qed
  then obtain out' where
    run: "bob_rows (p_pixels inp) (i_pitch inp) (i_pitch outp * i_lines outp) (p_pixels outp)
            0 (f * i_pitch inp) = Some out'"
    and rows: "\<And>k. k < L \<Longrightarrow> row P out' k = row P (p_pixels inp) (nat f + 2 * k)"
    using f P(2) Li pe by (auto simp: mult.commute)
  have "RenderBob_plane chroma f n outp inp = Some (outp\<lparr>p_pixels := out'\<rparr>)"
    using chroma run by (auto simp: RenderBob_plane_def Let_def)
  moreover have "\<forall>k < nat (i_lines outp).
      plane_row (outp\<lparr>p_pixels := out'\<rparr>) k = plane_row inp (2 * k + nat f)"
    using rows pe by (simp add: plane_row_def P_def L_def add.commute)
  ultimately show ?thesis by simp
qed

lemma for_planes_result:
  assumes "list_all2 Q outs ins"
    and "\<And>n outp inp. Q outp inp \<Longrightarrow> \<exists>outp'. body n outp inp = Some outp' \<and> R outp inp outp'"
  shows "\<exists>outs'. for_planes body n0 outs ins = Some outs' \<and> length outs' = length outs \<and>
           (\<forall>n < length outs. R (outs ! n) (ins ! n) (outs' ! n))"
  using assms(1)
proof (induction outs ins arbitrary: n0 rule: list_all2_induct)
  case Nil
  then show ?case by simp
next
  case (Cons outp outs inp ins)
  from assms(2) [OF Cons.hyps(1), of n0] obtain outp' where
    b: "body n0 outp inp = Some outp'" and r: "R outp inp outp'" by blast
  from Cons.IH [of "Suc n0"] obtain outs' where
    rec: "for_planes body (Suc n0) outs ins = Some outs'" and l: "length outs' = length outs"
    and rs: "\<And>n. n < length outs \<Longrightarrow> R (outs ! n) (ins ! n) (outs' ! n)" by blast
  have "\<forall>n < length (outp # outs). R ((outp # outs) ! n) ((inp # ins) ! n) ((outp' # outs') ! n)"
    using r rs by (auto simp: nth_Cons split: nat.splits)
  with b rec l show ?case by simp
qed

lemma RenderBob_fields:
  assumes chroma: "chroma = I420 \<or> chroma = IYUV \<or> chroma = YV12"
    and fits: "list_all2 bob_fits (planes p_outpic) (planes p_pic)"
    and f: "f = 0 \<or> f = 1"
  shows "\<exists>d. RenderBob chroma p_outpic p_pic f = Some d \<and> date d = date p_outpic \<and>
           field_rows (nat f) p_pic p_outpic d"
proof -
  from for_planes_result [of bob_fits "planes p_outpic" "planes p_pic" "RenderBob_plane chroma f"
      "\<lambda>outp inp outp'. i_lines outp' = i_lines outp \<and> i_pitch outp' = i_pitch outp \<and>
           (\<forall>k < nat (i_lines outp). plane_row outp' k = plane_row inp (2 * k + nat f))" 0,
      OF fits RenderBob_plane_rows [OF chroma _ f]]
  obtain outs' where
    run: "for_planes (RenderBob_plane chroma f) 0 (planes p_outpic) (planes p_pic) = Some outs'"
    and l: "length outs' = length (planes p_outpic)"
    and rs: "\<And>n. n < length (planes p_outpic) \<Longrightarrow>
        i_lines (outs' ! n) = i_lines (planes p_outpic ! n) \<and>
        i_pitch (outs' ! n) = i_pitch (planes p_outpic ! n) \<and>
        (\<forall>k < nat (i_lines (planes p_outpic ! n)).
           plane_row (outs' ! n) k = plane_row (planes p_pic ! n) (2 * k + nat f))"
    by blast
  have "RenderBob chroma p_outpic p_pic f = Some (p_outpic\<lparr>planes := outs'\<rparr>)"
    by (simp add: RenderBob_def run)
  moreover have "field_rows (nat f) p_pic p_outpic (p_outpic\<lparr>planes := outs'\<rparr>)"
    using l rs by (simp add: field_rows_def)
  ultimately show ?thesis by auto
qed

text \<open>
  C2. For a picture in a 4:2:0 format and output pictures whose planes have the pitch of
  the source planes and at most half their lines: in the mode Discard \<open>Render\<close>
  acquires one picture and displays exactly one, whose rows are the source rows
  0, 2, 4, ... of every plane (\<open>RenderBob\<close> with field 0); in the mode Bob it displays
  that picture and then a second one whose rows are the source rows 1, 3, 5, ...
  (\<open>RenderBob\<close> with field 1).
\<close>

theorem Render_bob_discard_fields:
  assumes chroma: "i_chroma (render vout) = I420 \<or> i_chroma (render vout) = IYUV \<or>
                   i_chroma (render vout) = YV12"
    and sink: "p_vout (p_sys vout) = Some sink"
    and a0: "acquire (polls sink) = Some (Some pic0, rest0)"
    and fit0: "list_all2 bob_fits (planes pic0) (planes p_pic)"
  shows "(i_mode (p_sys vout) = DEINTERLACE_DISCARD \<and> \<not> b_double_rate (p_sys vout) \<longrightarrow>
           (\<exists>d0. Render vout p_pic =
                   Some (set_sink vout (sink\<lparr>polls := rest0, displayed := displayed sink @ [d0]\<rparr>)) \<and>
                 field_rows 0 p_pic pic0 d0)) \<and>
         (i_mode (p_sys vout) = DEINTERLACE_BOB \<and> b_double_rate (p_sys vout) \<and>
          acquire rest0 = Some (Some pic1, rest1) \<and>
          list_all2 bob_fits (planes pic1) (planes p_pic) \<longrightarrow>
           (\<exists>d0 d1. Render vout p_pic =
                   Some (set_sink (vout\<lparr>p_sys := (p_sys vout)\<lparr>last_date := date p_pic\<rparr>\<rparr>)
                           (sink\<lparr>polls := rest1, displayed := displayed sink @ [d0, d1]\<rparr>)) \<and>
                 field_rows 0 p_pic pic0 d0 \<and> field_rows 1 p_pic pic1 d1))"
proof (intro conjI impI)
  define pic0' where "pic0' = vout_DatePicture pic0 (date p_pic)"
  have fit0': "list_all2 bob_fits (planes pic0') (planes p_pic)"
    using fit0 by (simp add: pic0'_def vout_DatePicture_def)
  from RenderBob_fields [OF chroma fit0', of 0] obtain d0 where
    d0: "RenderBob (i_chroma (render vout)) pic0' p_pic 0 = Some d0"
    and r0: "field_rows 0 p_pic pic0 d0"
    by (auto simp: field_rows_def pic0'_def vout_DatePicture_def)
  {
    assume "i_mode (p_sys vout) = DEINTERLACE_DISCARD \<and> \<not> b_double_rate (p_sys vout)"
    then have "Render vout p_pic =
        Some (set_sink vout (sink\<lparr>polls := rest0, displayed := displayed sink @ [d0]\<rparr>))"
      using sink a0 d0
      by (simp add: Render_def Render_acquire_def render_switch_def Let_def pic0'_def vout_DisplayPicture_def)
    with r0 show "\<exists>d0. Render vout p_pic =
                   Some (set_sink vout (sink\<lparr>polls := rest0, displayed := displayed sink @ [d0]\<rparr>)) \<and>
                 field_rows 0 p_pic pic0 d0" by blast
  }
  {
    assume a: "i_mode (p_sys vout) = DEINTERLACE_BOB \<and> b_double_rate (p_sys vout) \<and>
          acquire rest0 = Some (Some pic1, rest1) \<and>
          list_all2 bob_fits (planes pic1) (planes p_pic)"
    define pic1' where
      "pic1' = vout_DatePicture pic1 (second_date (last_date (p_sys vout)) (date p_pic))"
    have fit1': "list_all2 bob_fits (planes pic1') (planes p_pic)"
      using a by (simp add: pic1'_def vout_DatePicture_def)
    from RenderBob_fields [OF chroma fit1', of 1] obtain d1 where
      d1: "RenderBob (i_chroma (render vout)) pic1' p_pic 1 = Some d1"
      and r1: "field_rows 1 p_pic pic1 d1"
      by (auto simp: field_rows_def pic1'_def vout_DatePicture_def)
    have "Render vout p_pic =
        Some (set_sink (vout\<lparr>p_sys := (p_sys vout)\<lparr>last_date := date p_pic\<rparr>\<rparr>)
                (sink\<lparr>polls := rest1, displayed := displayed sink @ [d0, d1]\<rparr>))"
      using sink a0 a d0 d1
      by (cases "last_date (p_sys vout) = 0")
        (simp_all add: Render_def Render_acquire_def render_switch_def Let_def pic0'_def pic1'_def second_date_def
          vout_DisplayPicture_def mode_defs)
    with r0 r1 show "\<exists>d0 d1. Render vout p_pic =
                   Some (set_sink (vout\<lparr>p_sys := (p_sys vout)\<lparr>last_date := date p_pic\<rparr>\<rparr>)
                           (sink\<lparr>polls := rest1, displayed := displayed sink @ [d0, d1]\<rparr>)) \<and>
                 field_rows 0 p_pic pic0 d0 \<and> field_rows 1 p_pic pic1 d1" by blast
  }
qed

theorem Render_bob_discard_fields_witness:
  "(\<exists>d0. Render (vout_ex DEINTERLACE_DISCARD False 0 [Picture out_half]) (frame 100) =
            Some (set_sink (vout_ex DEINTERLACE_DISCARD False 0 [Picture out_half])
                    ((sink_ex [Picture out_half])\<lparr>polls := [], displayed := [d0]\<rparr>)) \<and>
          field_rows 0 (frame 100) out_half d0) \<and>
   (\<exists>d0 d1. Render (vout_ex DEINTERLACE_BOB True 0 [Picture out_half, Picture out_half]) (frame 100) =
            Some (set_sink ((vout_ex DEINTERLACE_BOB True 0 [Picture out_half, Picture out_half])
                              \<lparr>p_sys := (p_sys (vout_ex DEINTERLACE_BOB True 0
                                   [Picture out_half, Picture out_half]))\<lparr>last_date := 100\<rparr>\<rparr>)
                    ((sink_ex [Picture out_half, Picture out_half])\<lparr>polls := [], displayed := [d0, d1]\<rparr>)) \<and>
          field_rows 0 (frame 100) out_half d0 \<and> field_rows 1 (frame 100) out_half d1)"
proof -
  define vd where "vd = vout_ex DEINTERLACE_DISCARD False 0 [Picture out_half]"
  define vb where "vb = vout_ex DEINTERLACE_BOB True 0 [Picture out_half, Picture out_half]"
  have fit: "list_all2 bob_fits (planes out_half) (planes (frame 100))"
    by (simp add: bob_fits_def well_formed_def out_half_def frame_def)
  have cd: "i_chroma (render vd) = I420 \<or> i_chroma (render vd) = IYUV \<or> i_chroma (render vd) = YV12"
    and sd: "p_vout (p_sys vd) = Some (sink_ex [Picture out_half])"
    and ad: "acquire (polls (sink_ex [Picture out_half])) = Some (Some out_half, [])"
    and md: "i_mode (p_sys vd) = DEINTERLACE_DISCARD \<and> \<not> b_double_rate (p_sys vd)"
    by (simp_all add: vd_def vout_ex_def sink_ex_def)
  have cb: "i_chroma (render vb) = I420 \<or> i_chroma (render vb) = IYUV \<or> i_chroma (render vb) = YV12"
    and sb: "p_vout (p_sys vb) = Some (sink_ex [Picture out_half, Picture out_half])"
    and ab: "acquire (polls (sink_ex [Picture out_half, Picture out_half])) =
               Some (Some out_half, [Picture out_half])"
    and mb: "i_mode (p_sys vb) = DEINTERLACE_BOB \<and> b_double_rate (p_sys vb) \<and>
          acquire [Picture out_half] = Some (Some out_half, []) \<and>
          list_all2 bob_fits (planes out_half) (planes (frame 100))"
    using fit by (simp_all add: vb_def vout_ex_def sink_ex_def)
  from Render_bob_discard_fields [OF cd sd ad fit, THEN conjunct1, THEN mp, OF md]
  have 1: "\<exists>d0. Render vd (frame 100) =
            Some (set_sink vd ((sink_ex [Picture out_half])\<lparr>polls := [], displayed := [d0]\<rparr>)) \<and>
          field_rows 0 (frame 100) out_half d0"
    by (simp add: sink_ex_def)
  from Render_bob_discard_fields [OF cb sb ab fit, THEN conjunct2, THEN mp, OF mb]
  have 2: "\<exists>d0 d1. Render vb (frame 100) =
            Some (set_sink (vb\<lparr>p_sys := (p_sys vb)\<lparr>last_date := 100\<rparr>\<rparr>)
                    ((sink_ex [Picture out_half, Picture out_half])\<lparr>polls := [], displayed := [d0, d1]\<rparr>)) \<and>
          field_rows 0 (frame 100) out_half d0 \<and> field_rows 1 (frame 100) out_half d1"
    by (simp add: sink_ex_def frame_def)
  from 1 2 show ?thesis unfolding vd_def vb_def by (rule conjI)
qed

lemma blend_rows_result:
  assumes "0 < P"
    and "p_out = int (b * P)" "p_in = int (j * P)" "p_end = int ((b + m) * P)"
    and "(b + m) * P \<le> length out"
    and "0 < m \<Longrightarrow> (j + m) * P + P \<le> length src"
  shows "\<exists>out'. blend_rows src (int P) p_end out p_out p_in = Some out' \<and>
           length out' = length out \<and>
           (\<forall>k < m. row P out' (b + k) = map2 mean_u8 (row P src (j + k)) (row P src (j + k + 1))) \<and>
           (\<forall>k'. k' < b \<or> b + m \<le> k' \<longrightarrow> row P out' k' = row P out k')"
  using assms
proof (induction m arbitrary: b j out p_out p_in)
  case 0
  then show ?case by (subst blend_rows.simps) simp
next
  case (Suc m)
  have "b * P < (b + Suc m) * P" using Suc.prems(1) by (simp add: add_mult_distrib)
  then have lt: "p_out < p_end" unfolding Suc.prems(2,4) by (simp only: of_nat_less_iff)
  have fit_out: "b * P + P \<le> length out"
    using Suc.prems(5) by (simp add: algebra_simps)
  have src_fit: "(j + Suc m) * P + P \<le> length src" using Suc.prems(6) by simp
  have "j * P \<le> (j + Suc m) * P" "(j + 1) * P \<le> (j + Suc m) * P"
    by (intro mult_le_mono1; simp)+
  with src_fit have fit_src: "j * P + P \<le> length src" "(j + 1) * P + P \<le> length src"
    by linarith+
  from Merge_row [OF fit_out fit_src] obtain out1 where
    c: "Merge out (int (b * P)) src (int (j * P)) src (int ((j + 1) * P)) P = Some out1"
    and l1: "length out1 = length out"
    and r1: "row P out1 b = map2 mean_u8 (row P src j) (row P src (j + 1))"
    and f1: "\<And>k'. k' \<noteq> b \<Longrightarrow> row P out1 k' = row P out k'"
    by blast
  have "\<exists>out'. blend_rows src (int P) p_end out1 (p_out + int P) (p_in + int P) = Some out' \<and>
           length out' = length out1 \<and>
           (\<forall>k < m. row P out' (Suc b + k) =
                      map2 mean_u8 (row P src (Suc j + k)) (row P src (Suc j + k + 1))) \<and>
           (\<forall>k'. k' < Suc b \<or> Suc b + m \<le> k' \<longrightarrow> row P out' k' = row P out1 k')"
  proof (rule Suc.IH [OF \<open>0 < P\<close>])
    show "p_out + int P = int (Suc b * P)" using Suc.prems(2) by (simp add: algebra_simps)
    show "p_in + int P = int (Suc j * P)" using Suc.prems(3) by (simp add: algebra_simps)
    show "p_end = int ((Suc b + m) * P)" using Suc.prems(4) by simp
    show "(Suc b + m) * P \<le> length out1" using Suc.prems(5) l1 by simp
    show "(Suc j + m) * P + P \<le> length src" using src_fit by simp
  qed
  then obtain out' where
    rec: "blend_rows src (int P) p_end out1 (p_out + int P) (p_in + int P) = Some out'"
    and l': "length out' = length out1"
    and r': "\<And>k. k < m \<Longrightarrow> row P out' (Suc b + k) =
                      map2 mean_u8 (row P src (Suc j + k)) (row P src (Suc j + k + 1))"
    and f': "\<And>k'. k' < Suc b \<or> Suc b + m \<le> k' \<Longrightarrow> row P out' k' = row P out1 k'"
    by blast
  have pin: "p_in + int P = int ((j + 1) * P)" using Suc.prems(3) by (simp add: algebra_simps)
  have run: "blend_rows src (int P) p_end out p_out p_in = Some out'"
    using lt c rec by (subst blend_rows.simps) (simp add: Suc.prems(2) pin, simp add: Suc.prems(3))
  have rows: "row P out' (b + k) = map2 mean_u8 (row P src (j + k)) (row P src (j + k + 1))"
    if "k < Suc m" for k
  proof (cases k)
    case 0
    with f' [of b] r1 show ?thesis by simp
  next
    case (Suc k')
    with that r' [of k'] show ?thesis by simp
  qed
  have frame: "row P out' k' = row P out k'" if "k' < b \<or> b + Suc m \<le> k'" for k'
  proof -
    from that have "k' < Suc b \<or> Suc b + m \<le> k'" "k' \<noteq> b" by auto
    with f' [of k'] f1 [of k'] show ?thesis by simp
  qed
  from run l' l1 rows frame show ?case by auto
qed

lemma plane_row_full:
  assumes "well_formed pl" "k < nat (i_lines pl)"
  shows "k * nat (i_pitch pl) + nat (i_pitch pl) \<le> length (p_pixels pl)"
    and "length (plane_row pl k) = nat (i_pitch pl)"
proof -
  from assms(2) have "Suc k * nat (i_pitch pl) \<le> nat (i_lines pl) * nat (i_pitch pl)"
    by (intro mult_le_mono1) simp
  with well_formed_nat(4) [OF assms(1)]
  show a: "k * nat (i_pitch pl) + nat (i_pitch pl) \<le> length (p_pixels pl)"
    by (simp add: add.commute)
  then show "length (plane_row pl k) = nat (i_pitch pl)"
    unfolding plane_row_def by (rule row_full)
qed

lemma nth_mean_rows:
  "length a = P \<Longrightarrow> length b = P \<Longrightarrow> i < P \<Longrightarrow>
     unat (map2 mean_u8 a b ! i) = (unat (a ! i) + unat (b ! i)) div 2"
  by (simp add: unat_mean_u8)

lemma RenderBlend_plane_rows:
  assumes fits: "blend_fits outp inp"
  shows "\<exists>outp'. RenderBlend_plane n outp inp = Some outp' \<and>
           i_lines outp' = i_lines outp \<and> i_pitch outp' = i_pitch outp \<and>
           plane_row outp' 0 = plane_row inp 0 \<and>
           (\<forall>k. 1 \<le> k \<and> k < nat (i_lines outp) \<longrightarrow>
              length (plane_row outp' k) = nat (i_pitch inp) \<and>
              (\<forall>i < nat (i_pitch inp).
                 unat (plane_row outp' k ! i) =
                   (unat (plane_row inp (k - 1) ! i) + unat (plane_row inp k ! i)) div 2))"
proof -
  define P where "P = nat (i_pitch inp)"
  define L where "L = nat (i_lines outp)"
  from fits have wo: "well_formed outp" and wi: "well_formed inp"
    and pe: "i_pitch outp = i_pitch inp" and one: "1 \<le> i_lines outp"
    and le: "i_lines outp \<le> i_lines inp"
    by (auto simp: blend_fits_def)
  note no = well_formed_nat [OF wo] and ni = well_formed_nat [OF wi]
  have P: "0 < P" "int P = i_pitch inp" using ni by (simp_all add: P_def)
  have L: "1 \<le> L" "int L = i_lines outp" using one no by (simp_all add: L_def)
  have Li: "L \<le> nat (i_lines inp)" using le by (simp add: L_def)
  have fo: "L * P \<le> length (p_pixels outp)" using no(4) pe by (simp add: L_def P_def)
  have "L * P \<le> nat (i_lines inp) * P" using Li by (rule mult_le_mono1)
  then have fi: "L * P \<le> length (p_pixels inp)" using ni(4) unfolding P_def by linarith
  have "1 * P \<le> L * P" using L(1) by (intro mult_le_mono1)
  then have "P \<le> L * P" by simp
  with fo fi have "P \<le> length (p_pixels outp)" "P \<le> length (p_pixels inp)"
    by linarith+
  then have r0: "0 * P + P \<le> length (p_pixels outp)" "0 * P + P \<le> length (p_pixels inp)"
    by simp_all
  from memcpy_row [OF r0] obtain out1 where
    c: "pf_memcpy (p_pixels outp) 0 (p_pixels inp) 0 P = Some out1"
    and l1: "length out1 = length (p_pixels outp)"
    and row0: "row P out1 0 = row P (p_pixels inp) 0"
    by auto
  have "\<exists>out'. blend_rows (p_pixels inp) (int P) (int ((1 + (L - 1)) * P)) out1
                  (int (1 * P)) (int (0 * P)) = Some out' \<and>
           length out' = length out1 \<and>
           (\<forall>k < L - 1. row P out' (1 + k) =
               map2 mean_u8 (row P (p_pixels inp) (0 + k)) (row P (p_pixels inp) (0 + k + 1))) \<and>
           (\<forall>k'. k' < 1 \<or> 1 + (L - 1) \<le> k' \<longrightarrow> row P out' k' = row P out1 k')"
  proof (rule blend_rows_result [OF P(1) refl refl refl])
    show "(1 + (L - 1)) * P \<le> length out1" using fo l1 L(1) by simp
    show "(0 + (L - 1)) * P + P \<le> length (p_pixels inp)"
      using fi L(1) by (cases L) simp_all
  qed
  then obtain out' where
    run: "blend_rows (p_pixels inp) (i_pitch inp) (i_pitch outp * i_lines outp) out1
            (i_pitch inp) 0 = Some out'"
    and rows: "\<And>k. k < L - 1 \<Longrightarrow> row P out' (Suc k) =
               map2 mean_u8 (row P (p_pixels inp) k) (row P (p_pixels inp) (Suc k))"
    and keep: "row P out' 0 = row P out1 0"
    using P(2) L pe by (auto simp: mult.commute)
  have pos: "0 \<le> i_pitch inp" using wi by (simp add: well_formed_def)
  have r: "RenderBlend_plane n outp inp = Some (outp\<lparr>p_pixels := out'\<rparr>)"
    using c run pos by (simp add: RenderBlend_plane_def Let_def to_size_t_def P_def [symmetric])
  have first: "plane_row (outp\<lparr>p_pixels := out'\<rparr>) 0 = plane_row inp 0"
    using keep row0 pe by (simp add: plane_row_def P_def)
  have rest: "length (plane_row (outp\<lparr>p_pixels := out'\<rparr>) k) = nat (i_pitch inp) \<and>
              (\<forall>i < nat (i_pitch inp).
                 unat (plane_row (outp\<lparr>p_pixels := out'\<rparr>) k ! i) =
                   (unat (plane_row inp (k - 1) ! i) + unat (plane_row inp k ! i)) div 2)"
    if "1 \<le> k \<and> k < nat (i_lines outp)" for k
  proof -
    from that obtain k' where k: "k = Suc k'" "k' < L - 1" by (cases k) (auto simp: L_def)
    from that Li have "k < nat (i_lines inp)" "k - 1 < nat (i_lines inp)"
      unfolding L_def by linarith+
    then have la: "length (plane_row inp (k - 1)) = P" and lb: "length (plane_row inp k) = P"
      using plane_row_full(2) [OF wi] by (simp_all add: P_def)
    have e: "plane_row (outp\<lparr>p_pixels := out'\<rparr>) k =
             map2 mean_u8 (plane_row inp (k - 1)) (plane_row inp k)"
      using rows [OF k(2)] pe by (simp add: plane_row_def P_def k(1))
    have "length (plane_row (outp\<lparr>p_pixels := out'\<rparr>) k) = P"
      unfolding e using la lb by simp
    moreover have "unat (plane_row (outp\<lparr>p_pixels := out'\<rparr>) k ! i) =
                   (unat (plane_row inp (k - 1) ! i) + unat (plane_row inp k ! i)) div 2"
      if "i < P" for i
      unfolding e using la lb that by (rule nth_mean_rows)
    ultimately show ?thesis by (simp add: P_def)
  qed
  from r first rest show ?thesis by auto
qed

text \<open>
  C7. For output planes with the pitch of the source planes, at least one line and at
  most the lines of the source plane, \<open>RenderBlend\<close> returns, and in every plane of the
  output: row 0 is source row 0, copied; every later row \<open>k\<close>, up to the last line of
  the output plane, has the length of a row and holds in every byte the mean, rounded
  down, of the bytes above each other in the source rows \<open>k - 1\<close> and \<open>k\<close>, which is
  what \<open>Merge\<close> computes. No line of the output is left out and no source row is
  skipped. The output has the full height: in the mode Blend, \<open>Init\<close> asks the real
  output for pictures of the height of the input, in each of the four formats.
\<close>

theorem RenderBlend_rows:
  assumes "list_all2 blend_fits (planes p_outpic) (planes p_pic)"
  shows "(\<exists>d. RenderBlend p_outpic p_pic = Some d \<and>
           length (planes d) = length (planes p_outpic) \<and>
           (\<forall>n < length (planes p_outpic).
              i_lines (planes d ! n) = i_lines (planes p_outpic ! n) \<and>
              i_pitch (planes d ! n) = i_pitch (planes p_outpic ! n) \<and>
              plane_row (planes d ! n) 0 = plane_row (planes p_pic ! n) 0 \<and>
              (\<forall>k. 1 \<le> k \<and> k < nat (i_lines (planes p_outpic ! n)) \<longrightarrow>
                 length (plane_row (planes d ! n) k) = nat (i_pitch (planes p_pic ! n)) \<and>
                 (\<forall>i < nat (i_pitch (planes p_pic ! n)).
                    unat (plane_row (planes d ! n) k ! i) =
                      (unat (plane_row (planes p_pic ! n) (k - 1) ! i) +
                       unat (plane_row (planes p_pic ! n) k ! i)) div 2)))) \<and>
         (i_mode (p_sys vout) = DEINTERLACE_BLEND \<and>
          (i_chroma (render vout) = I420 \<or> i_chroma (render vout) = IYUV \<or>
           i_chroma (render vout) = YV12 \<or> i_chroma (render vout) = I422) \<longrightarrow>
            map i_height (requested (Init spawned vout)) = [i_height (render vout)])"
proof (intro conjI impI)
  assume "i_mode (p_sys vout) = DEINTERLACE_BLEND \<and>
          (i_chroma (render vout) = I420 \<or> i_chroma (render vout) = IYUV \<or>
           i_chroma (render vout) = YV12 \<or> i_chroma (render vout) = I422)"
  then show "map i_height (requested (Init spawned vout)) = [i_height (render vout)]"
    using Init_blend_height [of vout spawned] by blast
next
  from for_planes_result [of blend_fits "planes p_outpic" "planes p_pic" RenderBlend_plane
      "\<lambda>outp inp outp'. i_lines outp' = i_lines outp \<and> i_pitch outp' = i_pitch outp \<and>
           plane_row outp' 0 = plane_row inp 0 \<and>
           (\<forall>k. 1 \<le> k \<and> k < nat (i_lines outp) \<longrightarrow>
              length (plane_row outp' k) = nat (i_pitch inp) \<and>
              (\<forall>i < nat (i_pitch inp).
                 unat (plane_row outp' k ! i) =
                   (unat (plane_row inp (k - 1) ! i) + unat (plane_row inp k ! i)) div 2))" 0,
      OF assms RenderBlend_plane_rows]
  obtain outs' where
    run: "for_planes RenderBlend_plane 0 (planes p_outpic) (planes p_pic) = Some outs'"
    and l: "length outs' = length (planes p_outpic)"
    and rs: "\<And>n. n < length (planes p_outpic) \<Longrightarrow>
        i_lines (outs' ! n) = i_lines (planes p_outpic ! n) \<and>
        i_pitch (outs' ! n) = i_pitch (planes p_outpic ! n) \<and>
        plane_row (outs' ! n) 0 = plane_row (planes p_pic ! n) 0 \<and>
        (\<forall>k. 1 \<le> k \<and> k < nat (i_lines (planes p_outpic ! n)) \<longrightarrow>
           length (plane_row (outs' ! n) k) = nat (i_pitch (planes p_pic ! n)) \<and>
           (\<forall>i < nat (i_pitch (planes p_pic ! n)).
              unat (plane_row (outs' ! n) k ! i) =
                (unat (plane_row (planes p_pic ! n) (k - 1) ! i) +
                 unat (plane_row (planes p_pic ! n) k ! i)) div 2))"
    by blast
  have "RenderBlend p_outpic p_pic = Some (p_outpic\<lparr>planes := outs'\<rparr>)"
    by (simp add: RenderBlend_def run)
  then show "\<exists>d. RenderBlend p_outpic p_pic = Some d \<and>
           length (planes d) = length (planes p_outpic) \<and>
           (\<forall>n < length (planes p_outpic).
              i_lines (planes d ! n) = i_lines (planes p_outpic ! n) \<and>
              i_pitch (planes d ! n) = i_pitch (planes p_outpic ! n) \<and>
              plane_row (planes d ! n) 0 = plane_row (planes p_pic ! n) 0 \<and>
              (\<forall>k. 1 \<le> k \<and> k < nat (i_lines (planes p_outpic ! n)) \<longrightarrow>
                 length (plane_row (planes d ! n) k) = nat (i_pitch (planes p_pic ! n)) \<and>
                 (\<forall>i < nat (i_pitch (planes p_pic ! n)).
                    unat (plane_row (planes d ! n) k ! i) =
                      (unat (plane_row (planes p_pic ! n) (k - 1) ! i) +
                       unat (plane_row (planes p_pic ! n) k ! i)) div 2)))"
    using l rs by (intro exI [of _ "p_outpic\<lparr>planes := outs'\<rparr>"]) simp
qed

lemma linear_rows_result:
  assumes "0 < P"
    and "p_out = int (b * P)" "p_in = int (j * P)" "p_end = int (E * P)"
    and "E \<le> b + 2 * m" "0 < m \<Longrightarrow> b + 2 * m < E + 2"
    and "(b + 2 * m) * P \<le> length out"
    and "0 < m \<Longrightarrow> (j + 2 * m) * P + P \<le> length src"
  shows "\<exists>out'. linear_rows src (int P) p_end out p_out p_in =
                   Some (out', int ((b + 2 * m) * P), int ((j + 2 * m) * P)) \<and>
           length out' = length out \<and>
           (\<forall>k < m. row P out' (b + 2 * k) = row P src (j + 2 * k) \<and>
                     row P out' (b + 2 * k + 1) =
                       map2 mean_u8 (row P src (j + 2 * k)) (row P src (j + 2 * k + 2))) \<and>
           (\<forall>k'. k' < b \<or> b + 2 * m \<le> k' \<longrightarrow> row P out' k' = row P out k')"
  using assms
proof (induction m arbitrary: b j out p_out p_in)
  case 0
  then have "E * P \<le> b * P" by (intro mult_le_mono1) simp
  then have "\<not> p_out < p_end" unfolding "0.prems"(2,4) by (simp only: of_nat_less_iff not_less)
  then show ?case using "0.prems"(2,3) by (subst linear_rows.simps) simp
next
  case (Suc m)
  from Suc.prems(6) have bE: "b < E" by simp
  then have "b * P < E * P" using Suc.prems(1) by simp
  then have lt: "p_out < p_end" unfolding Suc.prems(2,4) by (simp only: of_nat_less_iff)
  have out_fit: "(b + 2 * Suc m) * P \<le> length out" by (rule Suc.prems(7))
  have src_fit: "(j + 2 * Suc m) * P + P \<le> length src" using Suc.prems(8) by simp
  have "b * P + P \<le> (b + 2 * Suc m) * P" "(b + 1) * P + P \<le> (b + 2 * Suc m) * P"
    by (rule rows_step; simp)+
  with out_fit have fo: "b * P + P \<le> length out" "(b + 1) * P + P \<le> length out"
    by linarith+
  have "j * P \<le> (j + 2 * Suc m) * P" "(j + 2) * P \<le> (j + 2 * Suc m) * P"
    by (intro mult_le_mono1; simp)+
  with src_fit have fs: "j * P + P \<le> length src" "(j + 2) * P + P \<le> length src"
    by linarith+
  from memcpy_row [OF fo(1) fs(1)] obtain out1 where
    c1: "pf_memcpy out (int (b * P)) src (int (j * P)) P = Some out1"
    and l1: "length out1 = length out" and r1: "row P out1 b = row P src j"
    and f1: "\<And>k'. k' \<noteq> b \<Longrightarrow> row P out1 k' = row P out k'"
    by blast
  from fo(2) l1 have fo2: "(b + 1) * P + P \<le> length out1" by simp
  from Merge_row [OF fo2 fs] obtain out2 where
    c2: "Merge out1 (int ((b + 1) * P)) src (int (j * P)) src (int ((j + 2) * P)) P = Some out2"
    and l2: "length out2 = length out1"
    and r2: "row P out2 (b + 1) = map2 mean_u8 (row P src j) (row P src (j + 2))"
    and f2: "\<And>k'. k' \<noteq> b + 1 \<Longrightarrow> row P out2 k' = row P out1 k'"
    by blast
  have "\<exists>out'. linear_rows src (int P) p_end out2 (p_out + int P + int P) (p_in + 2 * int P) =
                   Some (out', int ((b + 2 + 2 * m) * P), int ((j + 2 + 2 * m) * P)) \<and>
           length out' = length out2 \<and>
           (\<forall>k < m. row P out' (b + 2 + 2 * k) = row P src (j + 2 + 2 * k) \<and>
                     row P out' (b + 2 + 2 * k + 1) =
                       map2 mean_u8 (row P src (j + 2 + 2 * k)) (row P src (j + 2 + 2 * k + 2))) \<and>
           (\<forall>k'. k' < b + 2 \<or> b + 2 + 2 * m \<le> k' \<longrightarrow> row P out' k' = row P out2 k')"
  proof (rule Suc.IH [OF \<open>0 < P\<close>])
    show "p_out + int P + int P = int ((b + 2) * P)" using Suc.prems(2) by (simp add: algebra_simps)
    show "p_in + 2 * int P = int ((j + 2) * P)" using Suc.prems(3) by (simp add: algebra_simps)
    show "p_end = int (E * P)" by (rule Suc.prems(4))
    show "E \<le> b + 2 + 2 * m" using Suc.prems(5) by simp
    show "b + 2 + 2 * m < E + 2" using Suc.prems(6) by simp
    have "b + 2 + 2 * m = b + 2 * Suc m" by simp
    then show "(b + 2 + 2 * m) * P \<le> length out2" using out_fit l1 l2 by simp
    have "j + 2 + 2 * m = j + 2 * Suc m" by simp
    then show "(j + 2 + 2 * m) * P + P \<le> length src" using src_fit by simp
  qed
  then obtain out' where
    rec: "linear_rows src (int P) p_end out2 (p_out + int P + int P) (p_in + 2 * int P) =
            Some (out', int ((b + 2 + 2 * m) * P), int ((j + 2 + 2 * m) * P))"
    and l': "length out' = length out2"
    and r': "\<And>k. k < m \<Longrightarrow> row P out' (b + 2 + 2 * k) = row P src (j + 2 + 2 * k) \<and>
                     row P out' (b + 2 + 2 * k + 1) =
                       map2 mean_u8 (row P src (j + 2 + 2 * k)) (row P src (j + 2 + 2 * k + 2))"
    and f': "\<And>k'. k' < b + 2 \<or> b + 2 + 2 * m \<le> k' \<Longrightarrow> row P out' k' = row P out2 k'"
    by blast
  have po: "p_out + int P = int ((b + 1) * P)" using Suc.prems(2) by (simp add: algebra_simps)
  have pi: "p_in + 2 * int P = int ((j + 2) * P)" using Suc.prems(3) by (simp add: algebra_simps)
  have e: "b + 2 + 2 * m = b + 2 * Suc m" "j + 2 + 2 * m = j + 2 * Suc m" by simp_all
  have c1': "pf_memcpy out p_out src p_in P = Some out1" using c1 Suc.prems(2,3) by simp
  have c2': "Merge out1 (p_out + int P) src p_in src (p_in + 2 * int P) P = Some out2"
    by (simp only: po pi) (simp only: Suc.prems(3) c2)
  have run: "linear_rows src (int P) p_end out p_out p_in =
               Some (out', int ((b + 2 * Suc m) * P), int ((j + 2 * Suc m) * P))"
    using lt rec unfolding e by (subst linear_rows.simps) (simp add: c1' c2')
  have rows: "row P out' (b + 2 * k) = row P src (j + 2 * k) \<and>
              row P out' (b + 2 * k + 1) =
                map2 mean_u8 (row P src (j + 2 * k)) (row P src (j + 2 * k + 2))"
    if "k < Suc m" for k
  proof (cases k)
    case 0
    have "row P out' b = row P out2 b" "row P out' (b + 1) = row P out2 (b + 1)"
      by (rule f'; simp)+
    moreover have "row P out2 b = row P out1 b" by (rule f2) simp
    ultimately show ?thesis using r1 r2 0 by simp
  next
    case (Suc k')
    with that have "k' < m" by simp
    from r' [OF this] Suc show ?thesis by (simp add: add.assoc)
  qed
  have frame: "row P out' k' = row P out k'" if "k' < b \<or> b + 2 * Suc m \<le> k'" for k'
  proof -
    from that have "k' < b + 2 \<or> b + 2 + 2 * m \<le> k'" "k' \<noteq> b" "k' \<noteq> b + 1" by auto
    with f' [of k'] f2 [of k'] f1 [of k'] show ?thesis by simp
  qed
  from run l' l2 l1 rows frame show ?case by auto
qed

text \<open>
  \<open>RenderLinear\<close> on a plane with an even number \<open>2 * h + 2\<close> of lines and an output
  plane of the same size. Field 0: the rows \<open>2 * k\<close> are copies, the rows \<open>2 * k + 1\<close>
  below the last pair hold the byte means of the source rows \<open>2 * k\<close> and \<open>2 * k + 2\<close>,
  and the last row is the last source row. Field 1: row 0 is source row 0, the rows
  \<open>2 * k + 1\<close> are copies and the rows \<open>2 * k + 2\<close> hold the byte means of the source
  rows \<open>2 * k + 1\<close> and \<open>2 * k + 3\<close>.
\<close>

lemma RenderLinear_plane_top:
  assumes same: "same_size outp inp" and even: "i_lines inp = 2 * int h + 2"
  shows "\<exists>outp'. RenderLinear_plane 0 n outp inp = Some outp' \<and>
           i_lines outp' = i_lines outp \<and> i_pitch outp' = i_pitch outp \<and>
           (\<forall>k \<le> h. plane_row outp' (2 * k) = plane_row inp (2 * k)) \<and>
           (\<forall>k < h. \<forall>i < nat (i_pitch inp).
              unat (plane_row outp' (2 * k + 1) ! i) =
                (unat (plane_row inp (2 * k) ! i) + unat (plane_row inp (2 * k + 2) ! i)) div 2) \<and>
           plane_row outp' (2 * h + 1) = plane_row inp (2 * h + 1)"
proof -
  define P where "P = nat (i_pitch inp)"
  define src where "src = p_pixels inp"
  from same have wo: "well_formed outp" and wi: "well_formed inp"
    and pe: "i_pitch outp = i_pitch inp" and le: "i_lines outp = i_lines inp"
    by (auto simp: same_size_def)
  note no = well_formed_nat [OF wo] and ni = well_formed_nat [OF wi]
  have P: "0 < P" "int P = i_pitch inp" using ni by (simp_all add: P_def)
  have L: "nat (i_lines inp) = 2 * h + 2" using even by simp
  have fo: "(2 * h + 2) * P \<le> length (p_pixels outp)"
    using no(4) pe le L by (simp add: P_def)
  have fi: "(2 * h + 2) * P \<le> length src" using ni(4) L by (simp add: P_def src_def)
  define q where "q = int (2 * h * P)"
  define q' where "q' = int ((2 * h + 1) * P)"
  have pend: "0 + i_pitch outp * i_lines outp - 2 * i_pitch outp = q"
    using pe le even P(2) by (simp add: algebra_simps q_def)
  have "\<exists>out'. linear_rows src (int P) (int (2 * h * P)) (p_pixels outp) (int (0 * P)) (int (0 * P)) =
                   Some (out', int ((0 + 2 * h) * P), int ((0 + 2 * h) * P)) \<and>
           length out' = length (p_pixels outp) \<and>
           (\<forall>k < h. row P out' (0 + 2 * k) = row P src (0 + 2 * k) \<and>
                     row P out' (0 + 2 * k + 1) =
                       map2 mean_u8 (row P src (0 + 2 * k)) (row P src (0 + 2 * k + 2))) \<and>
           (\<forall>k'. k' < 0 \<or> 0 + 2 * h \<le> k' \<longrightarrow> row P out' k' = row P (p_pixels outp) k')"
  proof (rule linear_rows_result [OF P(1) refl refl refl])
    have "(0 + 2 * h) * P \<le> (2 * h + 2) * P" by (intro mult_le_mono1) simp
    with fo show "(0 + 2 * h) * P \<le> length (p_pixels outp)" by linarith
    have "(0 + 2 * h) * P + P \<le> (2 * h + 2) * P" by (rule rows_step) simp
    with fi show "(0 + 2 * h) * P + P \<le> length src" by linarith
  qed simp_all
  then obtain out1 where
    run1: "linear_rows src (int P) q (p_pixels outp) 0 0 = Some (out1, q, q)"
    and l1: "length out1 = length (p_pixels outp)"
    and r1: "\<And>k. k < h \<Longrightarrow> row P out1 (2 * k) = row P src (2 * k) \<and>
                     row P out1 (2 * k + 1) = map2 mean_u8 (row P src (2 * k)) (row P src (2 * k + 2))"
    unfolding q_def by auto
  have "2 * h * P + P \<le> (2 * h + 2) * P" "(2 * h + 1) * P + P \<le> (2 * h + 2) * P"
    by (rule rows_step; simp)+
  with fo fi l1 have f2: "2 * h * P + P \<le> length out1" "2 * h * P + P \<le> length src"
    and f3: "(2 * h + 1) * P + P \<le> length out1" "(2 * h + 1) * P + P \<le> length src"
    by linarith+
  from memcpy_row [OF f2] obtain out2 where
    c2: "pf_memcpy out1 q src q P = Some out2"
    and l2: "length out2 = length out1" and r2: "row P out2 (2 * h) = row P src (2 * h)"
    and k2: "\<And>k'. k' \<noteq> 2 * h \<Longrightarrow> row P out2 k' = row P out1 k'"
    unfolding q_def by blast
  from f3(1) l2 have f3': "(2 * h + 1) * P + P \<le> length out2" by simp
  from memcpy_row [OF f3' f3(2)] obtain out3 where
    c3: "pf_memcpy out2 q' src q' P = Some out3"
    and r3: "row P out3 (2 * h + 1) = row P src (2 * h + 1)"
    and k3: "\<And>k'. k' \<noteq> 2 * h + 1 \<Longrightarrow> row P out3 k' = row P out2 k'"
    unfolding q'_def by blast
  have nxt: "q + int P = q'" by (simp add: algebra_simps q_def q'_def)
  have r: "RenderLinear_plane 0 n outp inp = Some (outp\<lparr>p_pixels := out3\<rparr>)"
    unfolding RenderLinear_plane_def Let_def pend
    by (simp add: P(2) [symmetric] src_def [symmetric] run1 c2 nxt c3)
  have copies: "plane_row (outp\<lparr>p_pixels := out3\<rparr>) (2 * k) = plane_row inp (2 * k)" if "k \<le> h" for k
  proof (cases "k = h")
    case True
    with k3 [of "2 * h"] r2 pe show ?thesis by (simp add: plane_row_def P_def src_def)
  next
    case False
    with that have "k < h" by simp
    with k3 [of "2 * k"] k2 [of "2 * k"] r1 [of k] pe show ?thesis
      by (simp add: plane_row_def P_def src_def)
  qed
  have merges: "unat (plane_row (outp\<lparr>p_pixels := out3\<rparr>) (2 * k + 1) ! i) =
                (unat (plane_row inp (2 * k) ! i) + unat (plane_row inp (2 * k + 2) ! i)) div 2"
    if "k < h" "i < nat (i_pitch inp)" for k i
  proof -
    from that(1) L have b: "2 * k + 1 < nat (i_lines inp)" "2 * k < nat (i_lines inp)"
      "2 * k + 2 < nat (i_lines inp)" by simp_all
    from that(1) have "2 * k + 1 \<noteq> 2 * h + 1" "2 * k + 1 \<noteq> 2 * h" by presburger+
    with k3 [of "2 * k + 1"] k2 [of "2 * k + 1"] r1 [OF that(1)] pe
    have e: "plane_row (outp\<lparr>p_pixels := out3\<rparr>) (2 * k + 1) =
          map2 mean_u8 (plane_row inp (2 * k)) (plane_row inp (2 * k + 2))"
      by (simp add: plane_row_def P_def src_def)
    show ?thesis
      unfolding e using plane_row_full(2) [OF wi b(2)] plane_row_full(2) [OF wi b(3)] that(2)
      by (rule nth_mean_rows)
  qed
  have last_row: "plane_row (outp\<lparr>p_pixels := out3\<rparr>) (2 * h + 1) = plane_row inp (2 * h + 1)"
    using r3 pe by (simp add: plane_row_def P_def src_def)
  from r copies merges last_row show ?thesis by auto
qed

lemma RenderLinear_plane_bottom:
  assumes same: "same_size outp inp" and even: "i_lines inp = 2 * int h + 2"
  shows "\<exists>outp'. RenderLinear_plane 1 n outp inp = Some outp' \<and>
           i_lines outp' = i_lines outp \<and> i_pitch outp' = i_pitch outp \<and>
           plane_row outp' 0 = plane_row inp 0 \<and>
           (\<forall>k \<le> h. plane_row outp' (2 * k + 1) = plane_row inp (2 * k + 1)) \<and>
           (\<forall>k < h. \<forall>i < nat (i_pitch inp).
              unat (plane_row outp' (2 * k + 2) ! i) =
                (unat (plane_row inp (2 * k + 1) ! i) + unat (plane_row inp (2 * k + 3) ! i)) div 2)"
proof -
  define P where "P = nat (i_pitch inp)"
  define src where "src = p_pixels inp"
  from same have wo: "well_formed outp" and wi: "well_formed inp"
    and pe: "i_pitch outp = i_pitch inp" and le: "i_lines outp = i_lines inp"
    by (auto simp: same_size_def)
  note no = well_formed_nat [OF wo] and ni = well_formed_nat [OF wi]
  have P: "0 < P" "int P = i_pitch inp" using ni by (simp_all add: P_def)
  have L: "nat (i_lines inp) = 2 * h + 2" using even by simp
  have fo: "(2 * h + 2) * P \<le> length (p_pixels outp)"
    using no(4) pe le L by (simp add: P_def)
  have fi: "(2 * h + 2) * P \<le> length src" using ni(4) L by (simp add: P_def src_def)
  define q where "q = int (2 * h * P)"
  define q' where "q' = int ((1 + 2 * h) * P)"
  have pend: "0 + i_pitch outp * i_lines outp - 2 * i_pitch outp = q"
    using pe le even P(2) by (simp add: algebra_simps q_def)
  have "0 * P + P \<le> (2 * h + 2) * P" by (rule rows_step) simp
  with fo fi have f0: "0 * P + P \<le> length (p_pixels outp)" "0 * P + P \<le> length src"
    by linarith+
  from memcpy_row [OF f0] obtain out0 where
    c0: "pf_memcpy (p_pixels outp) 0 src 0 P = Some out0"
    and l0: "length out0 = length (p_pixels outp)" and r0: "row P out0 0 = row P src 0"
    by auto
  have "\<exists>out'. linear_rows src (int P) (int (2 * h * P)) out0 (int (1 * P)) (int (1 * P)) =
                   Some (out', int ((1 + 2 * h) * P), int ((1 + 2 * h) * P)) \<and>
           length out' = length out0 \<and>
           (\<forall>k < h. row P out' (1 + 2 * k) = row P src (1 + 2 * k) \<and>
                     row P out' (1 + 2 * k + 1) =
                       map2 mean_u8 (row P src (1 + 2 * k)) (row P src (1 + 2 * k + 2))) \<and>
           (\<forall>k'. k' < 1 \<or> 1 + 2 * h \<le> k' \<longrightarrow> row P out' k' = row P out0 k')"
  proof (rule linear_rows_result [OF P(1) refl refl refl])
    have "(1 + 2 * h) * P \<le> (2 * h + 2) * P" by (intro mult_le_mono1) simp
    with fo l0 show "(1 + 2 * h) * P \<le> length out0" by linarith
    have "(1 + 2 * h) * P + P \<le> (2 * h + 2) * P" by (rule rows_step) simp
    with fi show "(1 + 2 * h) * P + P \<le> length src" by linarith
  qed simp_all
  then obtain out1 where
    run1: "linear_rows src (int P) q out0 (int P) (int P) = Some (out1, q', q')"
    and l1: "length out1 = length out0"
    and r1: "\<And>k. k < h \<Longrightarrow> row P out1 (1 + 2 * k) = row P src (1 + 2 * k) \<and>
                     row P out1 (1 + 2 * k + 1) =
                       map2 mean_u8 (row P src (1 + 2 * k)) (row P src (1 + 2 * k + 2))"
    and k1: "row P out1 0 = row P out0 0"
    unfolding q_def q'_def by auto
  have "(1 + 2 * h) * P + P \<le> (2 * h + 2) * P" by (rule rows_step) simp
  with fo fi l0 l1 have f2: "(1 + 2 * h) * P + P \<le> length out1" "(1 + 2 * h) * P + P \<le> length src"
    by linarith+
  from memcpy_row [OF f2] obtain out2 where
    c2: "pf_memcpy out1 q' src q' P = Some out2"
    and r2: "row P out2 (1 + 2 * h) = row P src (1 + 2 * h)"
    and k2: "\<And>k'. k' \<noteq> 1 + 2 * h \<Longrightarrow> row P out2 k' = row P out1 k'"
    unfolding q'_def by blast
  have r: "RenderLinear_plane 1 n outp inp = Some (outp\<lparr>p_pixels := out2\<rparr>)"
    unfolding RenderLinear_plane_def Let_def pend
    by (simp add: P(2) [symmetric] src_def [symmetric] c0 run1 c2)
  have first: "plane_row (outp\<lparr>p_pixels := out2\<rparr>) 0 = plane_row inp 0"
    using k2 [of 0] k1 r0 pe by (simp add: plane_row_def P_def src_def)
  have copies: "plane_row (outp\<lparr>p_pixels := out2\<rparr>) (2 * k + 1) = plane_row inp (2 * k + 1)"
    if "k \<le> h" for k
  proof (cases "k = h")
    case True
    with r2 pe show ?thesis by (simp add: plane_row_def P_def src_def add.commute)
  next
    case False
    with that have "k < h" by simp
    with k2 [of "1 + 2 * k"] r1 [of k] pe show ?thesis
      by (simp add: plane_row_def P_def src_def add.commute)
  qed
  have merges: "unat (plane_row (outp\<lparr>p_pixels := out2\<rparr>) (2 * k + 2) ! i) =
                (unat (plane_row inp (2 * k + 1) ! i) + unat (plane_row inp (2 * k + 3) ! i)) div 2"
    if "k < h" "i < nat (i_pitch inp)" for k i
  proof -
    from that(1) L have b: "2 * k + 2 < nat (i_lines inp)" "2 * k + 1 < nat (i_lines inp)"
      "2 * k + 3 < nat (i_lines inp)" by simp_all
    from that(1) have ne: "1 + 2 * k + 1 \<noteq> 1 + 2 * h" by presburger
    have e: "1 + 2 * k + 1 = 2 * k + 2" "1 + 2 * k + 2 = 2 * k + 3" "1 + 2 * k = 2 * k + 1"
      by simp_all
    from k2 [OF ne] r1 [OF that(1)] pe
    have m: "plane_row (outp\<lparr>p_pixels := out2\<rparr>) (2 * k + 2) =
          map2 mean_u8 (plane_row inp (2 * k + 1)) (plane_row inp (2 * k + 3))"
      unfolding e by (simp add: plane_row_def P_def src_def numeral_3_eq_3)
    show ?thesis
      unfolding m using plane_row_full(2) [OF wi b(2)] plane_row_full(2) [OF wi b(3)] that(2)
      by (rule nth_mean_rows)
  qed
  from r first copies merges show ?thesis by auto
qed

lemma RenderLinear_odd_bottom:
  "RenderLinear_plane 1 1 (plane3 [0, 0, 0, 0, 0, 0]) (plane3 [1, 2, 3, 4, 5, 6]) =
     Some (plane3 [1, 2, 3, 4, 0, 0])"
  by code_simp

theorem RenderBlend_rows_witness:
  "list_all2 blend_fits (planes out_full) (planes frame_422) \<and>
   (\<exists>d. RenderBlend out_full frame_422 = Some d \<and>
           length (planes d) = length (planes out_full) \<and>
           (\<forall>n < length (planes out_full).
              i_lines (planes d ! n) = i_lines (planes out_full ! n) \<and>
              i_pitch (planes d ! n) = i_pitch (planes out_full ! n) \<and>
              plane_row (planes d ! n) 0 = plane_row (planes frame_422 ! n) 0 \<and>
              (\<forall>k. 1 \<le> k \<and> k < nat (i_lines (planes out_full ! n)) \<longrightarrow>
                 length (plane_row (planes d ! n) k) = nat (i_pitch (planes frame_422 ! n)) \<and>
                 (\<forall>i < nat (i_pitch (planes frame_422 ! n)).
                    unat (plane_row (planes d ! n) k ! i) =
                      (unat (plane_row (planes frame_422 ! n) (k - 1) ! i) +
                       unat (plane_row (planes frame_422 ! n) k ! i)) div 2)))) \<and>
   map i_height (requested (Init None vout_422_blend)) = [480]"
proof -
  have fit: "list_all2 blend_fits (planes out_full) (planes frame_422)"
    by (simp add: blend_fits_def well_formed_def out_full_def frame_422_def)
  have m: "i_mode (p_sys vout_422_blend) = DEINTERLACE_BLEND \<and>
          (i_chroma (render vout_422_blend) = I420 \<or> i_chroma (render vout_422_blend) = IYUV \<or>
           i_chroma (render vout_422_blend) = YV12 \<or> i_chroma (render vout_422_blend) = I422)"
    by (simp add: vout_422_blend_def vout_422_def)
  from RenderBlend_rows [OF fit, of vout_422_blend None, THEN conjunct2, THEN mp, OF m]
  have h: "map i_height (requested (Init None vout_422_blend)) = [480]"
    by (simp add: vout_422_blend_def vout_422_def)
  from fit RenderBlend_rows [OF fit, of vout_422_blend None, THEN conjunct1] h
  show ?thesis by (intro conjI)
qed

text \<open>
  The same two pictures evaluated: the luma plane, of the size of the source plane, and
  the two chroma planes, of half the lines of the source chroma planes.
\<close>

lemma RenderBlend_example:
  "map_option planes (RenderBlend out_full frame_422) =
     Some [\<lparr>p_pixels = [1, 2, 2, 3, 4, 5, 6, 7], i_lines = 4, i_pitch = 2\<rparr>,
           \<lparr>p_pixels = [10, 15], i_lines = 2, i_pitch = 1\<rparr>,
           \<lparr>p_pixels = [50, 55], i_lines = 2, i_pitch = 1\<rparr>]"
  by code_simp

text \<open>
  C6 has \<open>RenderLinear\<close> write, for every source plane, the alternation of copied and
  merged rows and, for field 0, the last source row as the final destination row. The
  lemmas \<open>RenderLinear_plane_top\<close> and \<open>RenderLinear_plane_bottom\<close> show this for planes
  with an even number of lines. On a plane with an
  odd number of lines the code does something else. For three rows of two bytes and
  field 0: the loop writes rows 0 and 1, the copy after the loop writes row 2
  (offset 4), and the copy under the comment "For TOP field we need to add the last
  line" then reads and writes at offset 6, one row past the end of both planes.
  \<open>RenderLinear\<close> has no defined result there, and neither has \<open>Render\<close> in the mode
  Linear for a 6-line I420 picture, whose chroma planes have three lines. Field 1 stays
  inside the planes on the same input and leaves the last row unwritten.
\<close>

theorem RenderLinear_top_overflows:
  "RenderLinear_plane 0 1 (plane3 [0, 0, 0, 0, 0, 0]) (plane3 [1, 2, 3, 4, 5, 6]) = None \<and>
   linear_rows [1, 2, 3, 4, 5, 6] 2 2 [0, 0, 0, 0, 0, 0] 0 0 = Some ([1, 2, 3, 4, 0, 0], 4, 4) \<and>
   pf_memcpy [1, 2, 3, 4, 0, 0] 4 [1, 2, 3, 4, 5, 6] 4 2 = Some [1, 2, 3, 4, 5, 6] \<and>
   pf_memcpy [1, 2, 3, 4, 5, 6] 6 [1, 2, 3, 4, 5, 6] 6 2 = None \<and>
   RenderLinear out_six frame_six 0 = None \<and>
   Render vout_six frame_six = None"
  by code_simp

section \<open>Render: the dates of the displayed pictures\<close>

subsection \<open>Dates as signed numbers\<close>

lemma sint_mtime: "- (2 ^ 63) \<le> k \<Longrightarrow> k < 2 ^ 63 \<Longrightarrow> sint (word_of_int k :: mtime_t) = k"
  by (simp add: sint_sbintrunc' signed_take_bit_int_eq_self)

lemma sint_mtime_range: "- (2 ^ 63) \<le> sint (x :: mtime_t)" "sint (x :: mtime_t) < 2 ^ 63"
  using sint_ge [of x] sint_lt [of x] by simp_all

lemma sdiv_2_range:
  "- (2 ^ 63) \<le> k \<Longrightarrow> k < 2 ^ 63 \<Longrightarrow> - (2 ^ 63) \<le> k sdiv 2 \<and> k sdiv 2 < (2 ^ 63 :: int)"
  by (simp add: signed_divide_int_def sgn_if) presburger

lemma sdiv_2_nonneg: "0 \<le> x \<Longrightarrow> x sdiv 2 = x div (2::int)"
  by (simp add: signed_divide_int_def sgn_if)

lemma sint_plus_20000:
  assumes "sint C + 20000 < 2 ^ 63"
  shows "sint (C + 20000 :: mtime_t) = sint C + 20000"
proof -
  have "(C + 20000 :: mtime_t) = word_of_int (sint C + 20000)" by simp
  moreover have "- (2 ^ 63) \<le> sint C + 20000" using sint_mtime_range(1) [of C] by simp
  ultimately show ?thesis using assms by (simp only: sint_mtime)
qed

lemma sint_extrapolated:
  assumes "- (2 ^ 63) \<le> 3 * sint C - sint P" "3 * sint C - sint P < 2 ^ 63"
  shows "sint (mtime_div (3 * C - P) 2) = (3 * sint C - sint P) sdiv 2"
proof -
  have e: "(3 * C - P :: mtime_t) = word_of_int (3 * sint C - sint P)" by simp
  have "sint (3 * C - P) = 3 * sint C - sint P"
    unfolding e using assms by (rule sint_mtime)
  then have "mtime_div (3 * C - P) 2 = word_of_int ((3 * sint C - sint P) sdiv 2)"
    by (simp add: mtime_div_def)
  moreover from sdiv_2_range [OF assms]
  have "sint (word_of_int ((3 * sint C - sint P) sdiv 2) :: mtime_t) = (3 * sint C - sint P) sdiv 2"
    by (intro sint_mtime) simp_all
  ultimately show ?thesis by simp
qed

lemma second_date_gap:
  assumes "0 < sint P" "sint P < sint C" "3 * sint C - sint P < 2 ^ 63"
  shows "sint (second_date P C) = sint C + (sint C - sint P) div 2"
proof -
  from assms(1) have nz: "P \<noteq> 0" by auto
  have n: "0 \<le> 3 * sint C - sint P" using assms by simp
  then have "- (2 ^ 63) \<le> 3 * sint C - sint P" by simp
  from sint_extrapolated [OF this assms(3)] nz
  have "sint (second_date P C) = (3 * sint C - sint P) sdiv 2" by (simp add: second_date_def)
  also have "\<dots> = (3 * sint C - sint P) div 2" using n by (rule sdiv_2_nonneg)
  also have "3 * sint C - sint P = 2 * sint C + (sint C - sint P)" by simp
  finally show ?thesis by simp
qed

lemma sorted_wrt_less_Cons:
  "x < y \<Longrightarrow> sorted_wrt (<) (y # ys) \<Longrightarrow> sorted_wrt (<) (x # y # ys)" for x :: int
  by fastforce

lemma out_dates_Cons:
  "map sint (out_dates P (C # cs)) = sint C # tl (map sint (out_dates P (C # cs)))"
  by simp

lemma sorted_out_dates_spaced:
  "0 < sint P \<Longrightarrow> sint P < sint C \<Longrightarrow> spaced (sint P) (sint C) (map sint cs) \<Longrightarrow>
     sorted_wrt (<) (map sint (out_dates P (C # cs)))"
proof (induction cs arbitrary: P C)
  case Nil
  then have g: "2 \<le> sint C - sint P" and b: "3 * sint C - sint P < 2 ^ 63" by simp_all
  from g have "1 \<le> (sint C - sint P) div 2" by presburger
  with second_date_gap [OF Nil.prems(1,2) b] show ?case by simp
next
  case (Cons C' cs)
  from Cons.prems have g: "2 \<le> sint C - sint P" "sint C - sint P < 2 * (sint C' - sint C)"
    and b: "3 * sint C - sint P < 2 ^ 63"
    and sp: "spaced (sint C) (sint C') (map sint cs)"
    by simp_all
  from g have lt: "sint C < sint C'" by presburger
  have ih: "sorted_wrt (<) (map sint (out_dates C (C' # cs)))"
    by (rule Cons.IH) (use Cons.prems lt sp in simp_all)
  have s: "sint (second_date P C) = sint C + (sint C - sint P) div 2"
    using Cons.prems(1,2) b by (rule second_date_gap)
  have "1 \<le> (sint C - sint P) div 2" "(sint C - sint P) div 2 < sint C' - sint C"
    using g by presburger+
  then have a: "sint C < sint (second_date P C)" and b: "sint (second_date P C) < sint C'"
    unfolding s by simp_all
  have "sorted_wrt (<) (sint (second_date P C) # sint C' # tl (map sint (out_dates C (C' # cs))))"
    using b ih by (subst (asm) out_dates_Cons) (rule sorted_wrt_less_Cons)
  then have "sorted_wrt (<) (sint C # sint (second_date P C) # sint C' #
                              tl (map sint (out_dates C (C' # cs))))"
    using a by (rule sorted_wrt_less_Cons [rotated])
  then show ?case by simp
qed

lemma sorted_out_dates:
  "well_spaced (map sint cs) \<Longrightarrow> sorted_wrt (<) (map sint (out_dates 0 cs))"
proof (induction cs rule: induct_list012)
  case 1
  then show ?case by simp
next
  case (2 C)
  then show ?case by (simp add: second_date_def sint_plus_20000)
next
  case (3 C C' cs)
  then have pos: "0 < sint C" and fit: "sint C + 20000 < 2 ^ 63"
    and gap: "20000 < sint C' - sint C" and sp: "spaced (sint C) (sint C') (map sint cs)"
    by simp_all
  from gap have lt: "sint C < sint C'" by simp
  have ih: "sorted_wrt (<) (map sint (out_dates C (C' # cs)))"
    using pos lt sp by (rule sorted_out_dates_spaced)
  have p20: "sint (C + 20000) = sint C + 20000" using fit by (rule sint_plus_20000)
  have "sint (C + 20000) < sint C'" using gap unfolding p20 by simp
  then have "sorted_wrt (<) (sint (C + 20000) # sint C' # tl (map sint (out_dates C (C' # cs))))"
    using ih by (subst (asm) out_dates_Cons) (rule sorted_wrt_less_Cons)
  then have "sorted_wrt (<) (sint C # sint (C + 20000) # sint C' #
                              tl (map sint (out_dates C (C' # cs))))"
    by (rule sorted_wrt_less_Cons [rotated]) (simp add: p20)
  then show ?case by (simp add: second_date_def)
qed

lemma length_out_dates: "length (out_dates P cs) = 2 * length cs"
  by (induction cs arbitrary: P) simp_all

subsection \<open>The double-rate modes return\<close>

lemma Render_acquire_double:
  assumes sink: "p_vout (p_sys vout) = Some sink"
    and dbl: "b_double_rate (p_sys vout)"
    and a0: "acquire (polls sink) = Some (Some pic0, rest0)"
    and a1: "acquire rest0 = Some (Some pic1, rest1)"
  shows "Render_acquire vout p_pic =
           Some (Acquired (vout\<lparr>p_sys := (p_sys vout)\<lparr>last_date := date p_pic\<rparr>\<rparr>)
                   (sink\<lparr>polls := rest1\<rparr>) (pic0\<lparr>date := date p_pic\<rparr>)
                   (Some (pic1\<lparr>date := second_date (last_date (p_sys vout)) (date p_pic)\<rparr>)))"
  using assms
  by (cases "last_date (p_sys vout) = 0")
    (simp_all add: Render_acquire_def Let_def second_date_def vout_DatePicture_def)

lemma RenderLinear_returns:
  assumes fits: "list_all2 linear_fits (planes p_outpic) (planes p_pic)"
    and f: "f = 0 \<or> f = 1"
  shows "\<exists>d. RenderLinear p_outpic p_pic f = Some d \<and> date d = date p_outpic"
proof -
  have plane: "\<exists>outp'. RenderLinear_plane f n outp inp = Some outp' \<and> True"
    if "linear_fits outp inp" for n outp inp
  proof -
    from that have same: "same_size outp inp" and two: "2 \<le> i_lines inp"
      and ev: "i_lines inp mod 2 = 0"
      by (auto simp: linear_fits_def)
    define h where "h = nat ((i_lines inp - 2) div 2)"
    have "0 \<le> (i_lines inp - 2) div 2" using two by simp
    then have "int h = (i_lines inp - 2) div 2" by (simp add: h_def)
    moreover have "i_lines inp = 2 * ((i_lines inp - 2) div 2) + 2" using ev by presburger
    ultimately have even: "i_lines inp = 2 * int h + 2" by simp
    from f show ?thesis
    proof
      assume "f = 0"
      with RenderLinear_plane_top [OF same even, of n] show ?thesis by auto
    next
      assume "f = 1"
      with RenderLinear_plane_bottom [OF same even, of n] show ?thesis by auto
    qed
  qed
  from for_planes_result [of linear_fits "planes p_outpic" "planes p_pic" "RenderLinear_plane f"
      "\<lambda>outp inp outp'. True" 0, OF fits plane]
  obtain outs' where
    "for_planes (RenderLinear_plane f) 0 (planes p_outpic) (planes p_pic) = Some outs'"
    by blast
  then show ?thesis by (simp add: RenderLinear_def)
qed

lemma Render_double_returns:
  assumes sink: "p_vout (p_sys vout) = Some sink"
    and dbl: "b_double_rate (p_sys vout)"
    and a0: "acquire (polls sink) = Some (Some pic0, rest0)"
    and a1: "acquire rest0 = Some (Some pic1, rest1)"
    and f0: "render_fits vout pic0 p_pic"
    and f1: "render_fits vout pic1 p_pic"
  shows "\<exists>e0 e1. Render vout p_pic =
           Some (vout\<lparr>p_sys := (p_sys vout)\<lparr>last_date := date p_pic,
                   p_vout := Some (sink\<lparr>polls := rest1, displayed := displayed sink @ [e0, e1]\<rparr>)\<rparr>\<rparr>) \<and>
           date e0 = date p_pic \<and>
           date e1 = second_date (last_date (p_sys vout)) (date p_pic)"
proof -
  define C where "C = date p_pic"
  define D where "D = second_date (last_date (p_sys vout)) (date p_pic)"
  define v1 where "v1 = vout\<lparr>p_sys := (p_sys vout)\<lparr>last_date := C\<rparr>\<rparr>"
  define s1 where "s1 = sink\<lparr>polls := rest1\<rparr>"
  have acq: "Render_acquire vout p_pic =
      Some (Acquired v1 s1 (pic0\<lparr>date := C\<rparr>) (Some (pic1\<lparr>date := D\<rparr>)))"
    unfolding v1_def s1_def C_def D_def using sink dbl a0 a1 by (rule Render_acquire_double)
  have "\<exists>e0 e1. render_switch v1 s1 (pic0\<lparr>date := C\<rparr>) (Some (pic1\<lparr>date := D\<rparr>)) p_pic =
           Some (s1\<lparr>displayed := displayed s1 @ [e0, e1]\<rparr>) \<and> date e0 = C \<and> date e1 = D"
  proof (cases "i_mode (p_sys vout) = DEINTERLACE_BOB")
    case True
    with f0 f1 have chroma: "i_chroma (render vout) = I420 \<or> i_chroma (render vout) = IYUV \<or>
        i_chroma (render vout) = YV12"
      and fit0: "list_all2 bob_fits (planes (pic0\<lparr>date := C\<rparr>)) (planes p_pic)"
      and fit1: "list_all2 bob_fits (planes (pic1\<lparr>date := D\<rparr>)) (planes p_pic)"
      by (auto simp: render_fits_def mode_defs)
    from RenderBob_fields [OF chroma fit0, of 0] obtain e0 where
      e0: "RenderBob (i_chroma (render vout)) (pic0\<lparr>date := C\<rparr>) p_pic 0 = Some e0" "date e0 = C"
      by auto
    from RenderBob_fields [OF chroma fit1, of 1] obtain e1 where
      e1: "RenderBob (i_chroma (render vout)) (pic1\<lparr>date := D\<rparr>) p_pic 1 = Some e1" "date e1 = D"
      by auto
    have "render_switch v1 s1 (pic0\<lparr>date := C\<rparr>) (Some (pic1\<lparr>date := D\<rparr>)) p_pic =
           Some (s1\<lparr>displayed := displayed s1 @ [e0, e1]\<rparr>)"
      using True e0(1) e1(1)
      by (simp add: render_switch_def Let_def v1_def vout_DisplayPicture_def mode_defs)
    with e0(2) e1(2) show ?thesis by blast
  next
    case False
    with f0 f1 have mode: "i_mode (p_sys vout) = DEINTERLACE_LINEAR"
      and fit0: "list_all2 linear_fits (planes (pic0\<lparr>date := C\<rparr>)) (planes p_pic)"
      and fit1: "list_all2 linear_fits (planes (pic1\<lparr>date := D\<rparr>)) (planes p_pic)"
      by (auto simp: render_fits_def)
    from RenderLinear_returns [OF fit0, of 0] obtain e0 where
      e0: "RenderLinear (pic0\<lparr>date := C\<rparr>) p_pic 0 = Some e0" "date e0 = C"
      by auto
    from RenderLinear_returns [OF fit1, of 1] obtain e1 where
      e1: "RenderLinear (pic1\<lparr>date := D\<rparr>) p_pic 1 = Some e1" "date e1 = D"
      by auto
    have "render_switch v1 s1 (pic0\<lparr>date := C\<rparr>) (Some (pic1\<lparr>date := D\<rparr>)) p_pic =
           Some (s1\<lparr>displayed := displayed s1 @ [e0, e1]\<rparr>)"
      using mode e0(1) e1(1)
      by (simp add: render_switch_def Let_def v1_def vout_DisplayPicture_def mode_defs)
    with e0(2) e1(2) show ?thesis by blast
  qed
  then obtain e0 e1 where
    sw: "render_switch v1 s1 (pic0\<lparr>date := C\<rparr>) (Some (pic1\<lparr>date := D\<rparr>)) p_pic =
           Some (s1\<lparr>displayed := displayed s1 @ [e0, e1]\<rparr>)"
    and d: "date e0 = C" "date e1 = D"
    by blast
  have "Render vout p_pic =
           Some (vout\<lparr>p_sys := (p_sys vout)\<lparr>last_date := date p_pic,
                   p_vout := Some (sink\<lparr>polls := rest1, displayed := displayed sink @ [e0, e1]\<rparr>)\<rparr>\<rparr>)"
    by (simp add: Render_def acq sw) (simp add: set_sink_def v1_def s1_def C_def)
  with d show ?thesis unfolding C_def D_def by blast
qed

lemma acquire_pictures:
  "no_cancel ps \<Longrightarrow> pictures ps = pic # others \<Longrightarrow>
     \<exists>r. acquire ps = Some (Some pic, r) \<and> no_cancel r \<and> pictures r = others"
  by (induction ps rule: acquire.induct) (auto simp: no_cancel_def)

lemma render_fits_state:
  "i_mode (p_sys v) = i_mode (p_sys vout) \<Longrightarrow> render v = render vout \<Longrightarrow>
     render_fits v = render_fits vout"
  by (intro ext) (simp add: render_fits_def)

lemma render_all_returns:
  assumes "p_vout (p_sys vout) = Some sink"
    and "b_double_rate (p_sys vout)"
    and "no_cancel (polls sink)"
    and "2 * length pics \<le> length (pictures (polls sink))"
    and "\<forall>out \<in> set (pictures (polls sink)). \<forall>p \<in> set pics. render_fits vout out p"
  shows "\<exists>vout'. render_all vout pics = Some vout' \<and>
           output_dates (Some vout') =
             Some (map date (displayed sink) @ out_dates (last_date (p_sys vout)) (map date pics))"
  using assms
proof (induction pics arbitrary: vout sink)
  case Nil
  then show ?case by (simp add: output_dates_def)
next
  case (Cons p_pic pics)
  from Cons.prems(4) obtain pic0 pic1 others where ps: "pictures (polls sink) = pic0 # pic1 # others"
    by (auto simp: Suc_le_length_iff numeral_eq_Suc)
  from acquire_pictures [OF Cons.prems(3) ps] obtain rest0 where
    a0: "acquire (polls sink) = Some (Some pic0, rest0)" and nc0: "no_cancel rest0"
    and ps0: "pictures rest0 = pic1 # others" by blast
  from acquire_pictures [OF nc0 ps0] obtain rest1 where
    a1: "acquire rest0 = Some (Some pic1, rest1)" and nc1: "no_cancel rest1"
    and ps1: "pictures rest1 = others" by blast
  have f0: "render_fits vout pic0 p_pic" and f1: "render_fits vout pic1 p_pic"
    using Cons.prems(5) ps by simp_all
  from Render_double_returns [OF Cons.prems(1,2) a0 a1 f0 f1] obtain e0 e1 where
    r: "Render vout p_pic =
           Some (vout\<lparr>p_sys := (p_sys vout)\<lparr>last_date := date p_pic,
                   p_vout := Some (sink\<lparr>polls := rest1, displayed := displayed sink @ [e0, e1]\<rparr>)\<rparr>\<rparr>)"
    and d: "date e0 = date p_pic" "date e1 = second_date (last_date (p_sys vout)) (date p_pic)"
    by blast
  define sink1 where "sink1 = sink\<lparr>polls := rest1, displayed := displayed sink @ [e0, e1]\<rparr>"
  define v1 where "v1 = vout\<lparr>p_sys := (p_sys vout)\<lparr>last_date := date p_pic, p_vout := Some sink1\<rparr>\<rparr>"
  have fs: "render_fits v1 = render_fits vout"
    by (rule render_fits_state) (simp_all add: v1_def)
  have "\<exists>vout'. render_all v1 pics = Some vout' \<and>
           output_dates (Some vout') =
             Some (map date (displayed sink1) @ out_dates (last_date (p_sys v1)) (map date pics))"
  proof (rule Cons.IH)
    show "p_vout (p_sys v1) = Some sink1" by (simp add: v1_def)
    show "b_double_rate (p_sys v1)" using Cons.prems(2) by (simp add: v1_def)
    show "no_cancel (polls sink1)" using nc1 by (simp add: sink1_def)
    show "2 * length pics \<le> length (pictures (polls sink1))"
      using Cons.prems(4) ps ps1 by (simp add: sink1_def)
    show "\<forall>out \<in> set (pictures (polls sink1)). \<forall>p \<in> set pics. render_fits v1 out p"
      unfolding fs using Cons.prems(5) ps ps1 by (simp add: sink1_def)
  qed
  then obtain vout' where rest: "render_all v1 pics = Some vout'"
    and ds: "output_dates (Some vout') =
             Some (map date (displayed sink1) @ out_dates (last_date (p_sys v1)) (map date pics))"
    by blast
  have "render_all vout (p_pic # pics) = Some vout'"
    using r rest by (simp add: v1_def sink1_def)
  moreover have "output_dates (Some vout') =
      Some (map date (displayed sink) @ out_dates (last_date (p_sys vout)) (map date (p_pic # pics)))"
    using ds d by (simp add: sink1_def v1_def)
  ultimately show ?case by blast
qed

subsection \<open>The date of the second picture\<close>

text \<open>
  C3, as amended. In double rate, once both output pictures are acquired, \<open>Render\<close>
  dates the first with the date \<open>C\<close> of the input and the second with \<open>C + 20000\<close> when
  the stored \<open>last_date\<close> \<open>P\<close> is zero, and with the C quotient \<open>(3*C - P) / 2\<close>,
  computed in signed 64 bits, otherwise; then it stores \<open>C\<close> as \<open>last_date\<close>. This is
  done before the \<open>switch\<close>, in every mode and for every picture. Read as signed
  numbers: \<open>C + 20000\<close> is the sum when it stays below \<open>2 ^ 63\<close>, and when \<open>3*C - P\<close>
  stays within the 64 bits the quotient is that of the numbers, truncated towards zero,
  which is the floor when \<open>P \<le> 3*C\<close>. With output pictures that fit the input in the
  mode Bob or Linear, \<open>Render\<close> returns and has displayed the two pictures, with these
  dates, in this order.
\<close>

theorem Render_second_picture_date:
  assumes sink: "p_vout (p_sys vout) = Some sink"
    and dbl: "b_double_rate (p_sys vout)"
    and a0: "acquire (polls sink) = Some (Some pic0, rest0)"
    and a1: "acquire rest0 = Some (Some pic1, rest1)"
  shows "\<exists>d1. Render_acquire vout p_pic =
                Some (Acquired (vout\<lparr>p_sys := (p_sys vout)\<lparr>last_date := date p_pic\<rparr>\<rparr>)
                        (sink\<lparr>polls := rest1\<rparr>) (pic0\<lparr>date := date p_pic\<rparr>)
                        (Some (pic1\<lparr>date := d1\<rparr>))) \<and>
           (last_date (p_sys vout) = 0 \<longrightarrow> d1 = date p_pic + 20000) \<and>
           (last_date (p_sys vout) \<noteq> 0 \<longrightarrow>
              d1 = mtime_div (3 * date p_pic - last_date (p_sys vout)) 2) \<and>
           (last_date (p_sys vout) = 0 \<and> sint (date p_pic) + 20000 < 2 ^ 63 \<longrightarrow>
              sint d1 = sint (date p_pic) + 20000) \<and>
           (last_date (p_sys vout) \<noteq> 0 \<and>
            - (2 ^ 63) \<le> 3 * sint (date p_pic) - sint (last_date (p_sys vout)) \<and>
            3 * sint (date p_pic) - sint (last_date (p_sys vout)) < 2 ^ 63 \<longrightarrow>
              sint d1 = (3 * sint (date p_pic) - sint (last_date (p_sys vout))) sdiv 2 \<and>
              (sint (last_date (p_sys vout)) \<le> 3 * sint (date p_pic) \<longrightarrow>
                 sint d1 = (3 * sint (date p_pic) - sint (last_date (p_sys vout))) div 2)) \<and>
           (render_fits vout pic0 p_pic \<and> render_fits vout pic1 p_pic \<longrightarrow>
              (\<exists>e0 e1. Render vout p_pic =
                   Some (vout\<lparr>p_sys := (p_sys vout)\<lparr>last_date := date p_pic,
                           p_vout := Some (sink\<lparr>polls := rest1,
                                                displayed := displayed sink @ [e0, e1]\<rparr>)\<rparr>\<rparr>) \<and>
                 date e0 = date p_pic \<and> date e1 = d1))"
proof -
  define P where "P = last_date (p_sys vout)"
  define C where "C = date p_pic"
  have acq: "Render_acquire vout p_pic =
                Some (Acquired (vout\<lparr>p_sys := (p_sys vout)\<lparr>last_date := date p_pic\<rparr>\<rparr>)
                        (sink\<lparr>polls := rest1\<rparr>) (pic0\<lparr>date := date p_pic\<rparr>)
                        (Some (pic1\<lparr>date := second_date P C\<rparr>)))"
    unfolding P_def C_def using sink dbl a0 a1 by (rule Render_acquire_double)
  have zero: "P = 0 \<longrightarrow> second_date P C = C + 20000"
    and other: "P \<noteq> 0 \<longrightarrow> second_date P C = mtime_div (3 * C - P) 2"
    by (simp_all add: second_date_def)
  have zero_int: "P = 0 \<and> sint C + 20000 < 2 ^ 63 \<longrightarrow> sint (second_date P C) = sint C + 20000"
    using sint_plus_20000 [of C] by (auto simp: second_date_def)
  have other_int: "P \<noteq> 0 \<and> - (2 ^ 63) \<le> 3 * sint C - sint P \<and> 3 * sint C - sint P < 2 ^ 63 \<longrightarrow>
      sint (second_date P C) = (3 * sint C - sint P) sdiv 2 \<and>
      (sint P \<le> 3 * sint C \<longrightarrow> sint (second_date P C) = (3 * sint C - sint P) div 2)"
  proof (intro impI, elim conjE)
    assume nz: "P \<noteq> 0" and lo: "- (2 ^ 63) \<le> 3 * sint C - sint P"
      and hi: "3 * sint C - sint P < 2 ^ 63"
    from sint_extrapolated [OF lo hi] nz
    have t: "sint (second_date P C) = (3 * sint C - sint P) sdiv 2" by (simp add: second_date_def)
    moreover have "(3 * sint C - sint P) sdiv 2 = (3 * sint C - sint P) div 2"
      if "sint P \<le> 3 * sint C"
      by (rule sdiv_2_nonneg) (use that in simp)
    ultimately show "sint (second_date P C) = (3 * sint C - sint P) sdiv 2 \<and>
      (sint P \<le> 3 * sint C \<longrightarrow> sint (second_date P C) = (3 * sint C - sint P) div 2)"
      by simp
  qed
  have returns: "render_fits vout pic0 p_pic \<and> render_fits vout pic1 p_pic \<longrightarrow>
              (\<exists>e0 e1. Render vout p_pic =
                   Some (vout\<lparr>p_sys := (p_sys vout)\<lparr>last_date := date p_pic,
                           p_vout := Some (sink\<lparr>polls := rest1,
                                                displayed := displayed sink @ [e0, e1]\<rparr>)\<rparr>\<rparr>) \<and>
                 date e0 = date p_pic \<and> date e1 = second_date P C)"
    unfolding P_def C_def using Render_double_returns [OF sink dbl a0 a1] by blast
  from acq zero other zero_int other_int returns show ?thesis
    unfolding P_def C_def by (intro exI [of _ "second_date (last_date (p_sys vout)) (date p_pic)"] conjI)
qed

theorem Render_second_picture_date_witness:
  "(\<exists>e0 e1. Render (vout_ex DEINTERLACE_BOB True 100 [Picture out_half, Picture out_half]) (frame 140) =
       Some ((vout_ex DEINTERLACE_BOB True 100 [Picture out_half, Picture out_half])
               \<lparr>p_sys := (p_sys (vout_ex DEINTERLACE_BOB True 100 [Picture out_half, Picture out_half]))
                  \<lparr>last_date := 140,
                   p_vout := Some \<lparr>polls = [], displayed = [e0, e1], destroyed = []\<rparr>\<rparr>\<rparr>) \<and>
       date e0 = 140 \<and> date e1 = 160) \<and>
   (\<exists>e0 e1. Render (vout_ex DEINTERLACE_BOB True 0 [Picture out_half, Picture out_half]) (frame 140) =
       Some ((vout_ex DEINTERLACE_BOB True 0 [Picture out_half, Picture out_half])
               \<lparr>p_sys := (p_sys (vout_ex DEINTERLACE_BOB True 0 [Picture out_half, Picture out_half]))
                  \<lparr>last_date := 140,
                   p_vout := Some \<lparr>polls = [], displayed = [e0, e1], destroyed = []\<rparr>\<rparr>\<rparr>) \<and>
       date e0 = 140 \<and> date e1 = 20140)"
proof -
  define ps where "ps = [Picture out_half, Picture out_half]"
  have fit: "list_all2 bob_fits (planes out_half) (planes (frame 140))"
    by (simp add: bob_fits_def well_formed_def out_half_def frame_def)
  have ex: "\<exists>e0 e1. Render (vout_ex DEINTERLACE_BOB True P ps) (frame 140) =
       Some ((vout_ex DEINTERLACE_BOB True P ps)
               \<lparr>p_sys := (p_sys (vout_ex DEINTERLACE_BOB True P ps))
                  \<lparr>last_date := 140,
                   p_vout := Some \<lparr>polls = [], displayed = [e0, e1], destroyed = []\<rparr>\<rparr>\<rparr>) \<and>
       date e0 = 140 \<and> date e1 = D"
    if P: "P = 0 \<longrightarrow> D = 20140" "P \<noteq> 0 \<longrightarrow> D = mtime_div (3 * 140 - P) 2" for P D
  proof -
    define v where "v = vout_ex DEINTERLACE_BOB True P ps"
    have sink: "p_vout (p_sys v) = Some (sink_ex ps)" and dbl: "b_double_rate (p_sys v)"
      and l: "last_date (p_sys v) = P"
      by (simp_all add: v_def vout_ex_def)
    have a0: "acquire (polls (sink_ex ps)) = Some (Some out_half, [Picture out_half])"
      and a1: "acquire [Picture out_half] = Some (Some out_half, [])"
      by (simp_all add: sink_ex_def ps_def)
    have f: "render_fits v out_half (frame 140)"
      using fit by (simp add: render_fits_def v_def vout_ex_def I420_def)
    from Render_second_picture_date [OF sink dbl a0 a1, of "frame 140"] obtain d1 where
      z: "last_date (p_sys v) = 0 \<longrightarrow> d1 = date (frame 140) + 20000"
      and n: "last_date (p_sys v) \<noteq> 0 \<longrightarrow>
                d1 = mtime_div (3 * date (frame 140) - last_date (p_sys v)) 2"
      and r: "render_fits v out_half (frame 140) \<and> render_fits v out_half (frame 140) \<longrightarrow>
              (\<exists>e0 e1. Render v (frame 140) =
                   Some (v\<lparr>p_sys := (p_sys v)\<lparr>last_date := date (frame 140),
                           p_vout := Some ((sink_ex ps)\<lparr>polls := [],
                                                displayed := displayed (sink_ex ps) @ [e0, e1]\<rparr>)\<rparr>\<rparr>) \<and>
                 date e0 = date (frame 140) \<and> date e1 = d1)"
      by blast
    have "d1 = D" using z n P l by (cases "P = 0") (simp_all add: frame_def)
    with r f show ?thesis unfolding v_def [symmetric] by (simp add: sink_ex_def frame_def)
  qed
  have "mtime_div (3 * 140 - 100) 2 = 160" by code_simp
  then have 1: "\<exists>e0 e1. Render (vout_ex DEINTERLACE_BOB True 100 ps) (frame 140) =
       Some ((vout_ex DEINTERLACE_BOB True 100 ps)
               \<lparr>p_sys := (p_sys (vout_ex DEINTERLACE_BOB True 100 ps))
                  \<lparr>last_date := 140,
                   p_vout := Some \<lparr>polls = [], displayed = [e0, e1], destroyed = []\<rparr>\<rparr>\<rparr>) \<and>
       date e0 = 140 \<and> date e1 = 160"
    by (intro ex) simp_all
  have 2: "\<exists>e0 e1. Render (vout_ex DEINTERLACE_BOB True 0 ps) (frame 140) =
       Some ((vout_ex DEINTERLACE_BOB True 0 ps)
               \<lparr>p_sys := (p_sys (vout_ex DEINTERLACE_BOB True 0 ps))
                  \<lparr>last_date := 140,
                   p_vout := Some \<lparr>polls = [], displayed = [e0, e1], destroyed = []\<rparr>\<rparr>\<rparr>) \<and>
       date e0 = 140 \<and> date e1 = 20140"
    by (intro ex) simp_all
  from 1 2 show ?thesis unfolding ps_def by (rule conjI)
qed

text \<open>
  The claim as stated fails in two ways. The quotient is not the floor when \<open>3*C - P\<close>
  is negative and odd: after a picture dated 4, a picture dated 1 gets the second date
  0, the floor being -1. And a recorded date of zero counts as none: after a picture
  dated 0, a picture dated 50 gets the second date 20050, not \<open>(3 * 50 - 0) / 2 = 75\<close>.
\<close>

theorem Render_second_date_truncates:
  "map_option (map sint) (output_dates (render_all (vout_ex DEINTERLACE_BOB True 0
       [Picture out_half, Picture out_half, Picture out_half, Picture out_half]) [frame 4, frame 1]))
     = Some [4, 20004, 1, 0] \<and>
   (3 * 1 - 4) div 2 = (- 1 :: int) \<and>
   map_option (map sint) (output_dates (render_all (vout_ex DEINTERLACE_BOB True 0
       [Picture out_half, Picture out_half, Picture out_half, Picture out_half]) [frame 0, frame 50]))
     = Some [0, 20000, 50, 20050] \<and>
   (3 * 50 - 0) div 2 = (75 :: int)"
proof (intro conjI)
  show "map_option (map sint) (output_dates (render_all (vout_ex DEINTERLACE_BOB True 0
       [Picture out_half, Picture out_half, Picture out_half, Picture out_half]) [frame 4, frame 1]))
     = Some [4, 20004, 1, 0]"
    by code_simp
  show "map_option (map sint) (output_dates (render_all (vout_ex DEINTERLACE_BOB True 0
       [Picture out_half, Picture out_half, Picture out_half, Picture out_half]) [frame 0, frame 50]))
     = Some [0, 20000, 50, 20050]"
    by code_simp
qed simp_all

subsection \<open>The dates of a run\<close>

text \<open>
  C4, as amended. Take a run of double-rate pictures from a fresh state (nothing
  displayed, \<open>last_date\<close> zero), with a sink that never signals a cancellation and
  hands out at least two output pictures per input, all of which fit the inputs in the
  mode Bob or Linear. Then every \<open>Render\<close> returns and the sink has got two dates per
  input; the first two are the date of the first input and that date plus 20000; and,
  read as signed numbers, the dates increase strictly when the input dates are
  \<open>well_spaced\<close>.
\<close>

theorem output_dates_increasing:
  assumes sink: "p_vout (p_sys vout) = Some sink"
    and dbl: "b_double_rate (p_sys vout)"
    and nc: "no_cancel (polls sink)"
    and fresh: "displayed sink = []" "last_date (p_sys vout) = 0"
    and enough: "2 * length pics \<le> length (pictures (polls sink))"
    and fits: "\<forall>out \<in> set (pictures (polls sink)). \<forall>p \<in> set pics. render_fits vout out p"
  shows "\<exists>vout' ds. render_all vout pics = Some vout' \<and> output_dates (Some vout') = Some ds \<and>
           length ds = 2 * length pics \<and>
           (pics \<noteq> [] \<longrightarrow> ds ! 0 = date (hd pics) \<and> ds ! 1 = date (hd pics) + 20000) \<and>
           (well_spaced (map sint (map date pics)) \<longrightarrow> sorted_wrt (<) (map sint ds))"
proof -
  from render_all_returns [OF sink dbl nc enough fits] fresh obtain vout' where
    r: "render_all vout pics = Some vout'"
    and ds: "output_dates (Some vout') = Some (out_dates 0 (map date pics))"
    by auto
  have "pics \<noteq> [] \<longrightarrow> out_dates 0 (map date pics) ! 0 = date (hd pics) \<and>
          out_dates 0 (map date pics) ! 1 = date (hd pics) + 20000"
    by (cases pics) (simp_all add: second_date_def)
  with r ds show ?thesis
    by (intro exI [of _ vout'] exI [of _ "out_dates 0 (map date pics)"])
      (simp add: length_out_dates sorted_out_dates)
qed

theorem output_dates_increasing_witness:
  "well_spaced (map sint (map date [frame 100000, frame 140000, frame 180000])) \<and>
   (\<exists>vout' ds. render_all (vout_ex DEINTERLACE_BOB True 0 (replicate 6 (Picture out_half)))
               [frame 100000, frame 140000, frame 180000] = Some vout' \<and>
      output_dates (Some vout') = Some ds \<and> length ds = 6 \<and> sorted_wrt (<) (map sint ds) \<and>
      ds ! 0 = 100000 \<and> ds ! 1 = 120000)"
proof -
  define v where "v = vout_ex DEINTERLACE_BOB True 0 (replicate 6 (Picture out_half))"
  define pics where "pics = [frame 100000, frame 140000, frame 180000]"
  have ws: "well_spaced (map sint (map date pics))" by (simp add: pics_def frame_def)
  have ps: "pictures (replicate 6 (Picture out_half)) = replicate 6 out_half"
    by (simp add: numeral_eq_Suc)
  have fit: "list_all2 bob_fits (planes out_half) (planes (frame d))" for d
    by (simp add: bob_fits_def well_formed_def out_half_def frame_def)
  have sink: "p_vout (p_sys v) = Some (sink_ex (replicate 6 (Picture out_half)))"
    and dbl: "b_double_rate (p_sys v)"
    and fresh: "displayed (sink_ex (replicate 6 (Picture out_half))) = []" "last_date (p_sys v) = 0"
    and nc: "no_cancel (polls (sink_ex (replicate 6 (Picture out_half))))"
    by (simp_all add: v_def vout_ex_def sink_ex_def no_cancel_def list_all_iff)
  have enough: "2 * length pics \<le> length (pictures (polls (sink_ex (replicate 6 (Picture out_half)))))"
    by (simp add: sink_ex_def ps pics_def)
  have fits: "\<forall>out \<in> set (pictures (polls (sink_ex (replicate 6 (Picture out_half))))).
                \<forall>p \<in> set pics. render_fits v out p"
    using fit by (simp add: sink_ex_def ps pics_def render_fits_def v_def vout_ex_def I420_def)
  from output_dates_increasing [OF sink dbl nc fresh enough fits] ws
  have "\<exists>vout' ds. render_all v pics = Some vout' \<and>
      output_dates (Some vout') = Some ds \<and> length ds = 6 \<and> sorted_wrt (<) (map sint ds) \<and>
      ds ! 0 = 100000 \<and> ds ! 1 = 120000"
    by (auto simp: pics_def frame_def)
  with ws show ?thesis unfolding v_def pics_def by blast
qed

text \<open>
  The claim as stated fails for inputs that are only strictly increasing. Pictures
  dated 100 and 200 are displayed with the dates 100, 20100, 200, 250. And for the
  dates \<open>2 ^ 62\<close> and \<open>2 ^ 62 + 2 ^ 61\<close>, far enough apart, \<open>3*C - P\<close> leaves the 64
  bits and the last date comes out negative.
\<close>

theorem output_dates_not_increasing:
  "sint (date (frame 100)) < sint (date (frame 200)) \<and>
   map_option (map sint) (output_dates (render_all (vout_ex DEINTERLACE_BOB True 0
       [Picture out_half, Picture out_half, Picture out_half, Picture out_half])
       [frame 100, frame 200])) = Some [100, 20100, 200, 250] \<and>
   \<not> sorted_wrt (<) [100, 20100, 200, 250 :: int] \<and>
   sint (date (frame 4611686018427387904)) < sint (date (frame 6917529027641081856)) \<and>
   map_option (map sint) (output_dates (render_all (vout_ex DEINTERLACE_BOB True 0
       [Picture out_half, Picture out_half, Picture out_half, Picture out_half])
       [frame 4611686018427387904, frame 6917529027641081856])) =
     Some [4611686018427387904, 4611686018427407904, 6917529027641081856, - 1152921504606846976] \<and>
   \<not> sorted_wrt (<)
       [4611686018427387904, 4611686018427407904, 6917529027641081856, - 1152921504606846976 :: int]"
proof (intro conjI)
  show "map_option (map sint) (output_dates (render_all (vout_ex DEINTERLACE_BOB True 0
       [Picture out_half, Picture out_half, Picture out_half, Picture out_half])
       [frame 100, frame 200])) = Some [100, 20100, 200, 250]"
    by code_simp
  show "map_option (map sint) (output_dates (render_all (vout_ex DEINTERLACE_BOB True 0
       [Picture out_half, Picture out_half, Picture out_half, Picture out_half])
       [frame 4611686018427387904, frame 6917529027641081856])) =
     Some [4611686018427387904, 4611686018427407904, 6917529027641081856, - 1152921504606846976]"
    by code_simp
qed (simp_all add: frame_def)

subsection \<open>A stored date of zero\<close>

text \<open>
  C10. \<open>Create\<close> stores \<open>last_date = 0\<close>. \<open>Render\<close> decides by comparing the stored
  \<open>last_date\<close> with zero and by nothing else: in double rate, once both output pictures
  are acquired, the second is dated \<open>C + 20000\<close> if \<open>last_date\<close> is zero and with the
  quotient \<open>(3*C - P) / 2\<close> if it is not, and the date of the input is stored, zero or
  not. So of two double-rate pictures rendered one after the other, with output
  pictures that fit, the second picture displayed for the second input carries
  \<open>C + 20000\<close> when the first input was dated 0, as after \<open>Create\<close>, and the
  quotient computed from the date of the first input when that was not zero.
\<close>

theorem zero_date_is_unset:
  "(Create (Some sys0) psz = (rc, Some sys, log) \<longrightarrow> last_date sys = 0) \<and>
   (p_vout (p_sys vout) = Some sink \<and> b_double_rate (p_sys vout) \<and>
    acquire (polls sink) = Some (Some pic0, rest0) \<and> acquire rest0 = Some (Some pic1, rest1) \<longrightarrow>
      Render_acquire vout p_pic =
        Some (Acquired (vout\<lparr>p_sys := (p_sys vout)\<lparr>last_date := date p_pic\<rparr>\<rparr>)
                (sink\<lparr>polls := rest1\<rparr>) (pic0\<lparr>date := date p_pic\<rparr>)
                (Some (pic1\<lparr>date := (if last_date (p_sys vout) = 0 then date p_pic + 20000
                                      else mtime_div (3 * date p_pic - last_date (p_sys vout)) 2)\<rparr>)))) \<and>
   (p_vout (p_sys vout) = Some sink \<and> b_double_rate (p_sys vout) \<and> no_cancel (polls sink) \<and>
    4 \<le> length (pictures (polls sink)) \<and>
    (\<forall>out \<in> set (pictures (polls sink)). render_fits vout out f1 \<and> render_fits vout out f2) \<longrightarrow>
      (\<exists>vout1 vout2 sink2 d0 d1 d2 d3.
         Render vout f1 = Some vout1 \<and> last_date (p_sys vout1) = date f1 \<and>
         Render vout1 f2 = Some vout2 \<and> p_vout (p_sys vout2) = Some sink2 \<and>
         displayed sink2 = displayed sink @ [d0, d1, d2, d3] \<and>
         date d2 = date f2 \<and>
         (date f1 = 0 \<longrightarrow> date d3 = date f2 + 20000) \<and>
         (date f1 \<noteq> 0 \<longrightarrow> date d3 = mtime_div (3 * date f2 - date f1) 2)))"
proof (intro conjI impI)
  assume "Create (Some sys0) psz = (rc, Some sys, log)"
  with Create_good [of sys0 psz] show "last_date sys = 0" by (simp add: good_sys_def)
next
  assume "p_vout (p_sys vout) = Some sink \<and> b_double_rate (p_sys vout) \<and>
    acquire (polls sink) = Some (Some pic0, rest0) \<and> acquire rest0 = Some (Some pic1, rest1)"
  then have sink: "p_vout (p_sys vout) = Some sink" and dbl: "b_double_rate (p_sys vout)"
    and a0: "acquire (polls sink) = Some (Some pic0, rest0)"
    and a1: "acquire rest0 = Some (Some pic1, rest1)"
    by blast+
  from Render_acquire_double [OF sink dbl a0 a1, of p_pic]
  show "Render_acquire vout p_pic =
        Some (Acquired (vout\<lparr>p_sys := (p_sys vout)\<lparr>last_date := date p_pic\<rparr>\<rparr>)
                (sink\<lparr>polls := rest1\<rparr>) (pic0\<lparr>date := date p_pic\<rparr>)
                (Some (pic1\<lparr>date := (if last_date (p_sys vout) = 0 then date p_pic + 20000
                                      else mtime_div (3 * date p_pic - last_date (p_sys vout)) 2)\<rparr>)))"
    by (simp only: second_date_def)
next
  assume a: "p_vout (p_sys vout) = Some sink \<and> b_double_rate (p_sys vout) \<and> no_cancel (polls sink) \<and>
    4 \<le> length (pictures (polls sink)) \<and>
    (\<forall>out \<in> set (pictures (polls sink)). render_fits vout out f1 \<and> render_fits vout out f2)"
  then have sink: "p_vout (p_sys vout) = Some sink" and dbl: "b_double_rate (p_sys vout)"
    and nc: "no_cancel (polls sink)" and four: "4 \<le> length (pictures (polls sink))"
    and fits: "\<And>out. out \<in> set (pictures (polls sink)) \<Longrightarrow>
                 render_fits vout out f1 \<and> render_fits vout out f2"
    by blast+
  from four obtain p0 p1 p2 p3 others where
    ps: "pictures (polls sink) = p0 # p1 # p2 # p3 # others"
    by (auto simp: Suc_le_length_iff numeral_eq_Suc)
  from acquire_pictures [OF nc ps] obtain r0 where
    a0: "acquire (polls sink) = Some (Some p0, r0)" and nc0: "no_cancel r0"
    and ps0: "pictures r0 = p1 # p2 # p3 # others" by blast
  from acquire_pictures [OF nc0 ps0] obtain r1 where
    a1: "acquire r0 = Some (Some p1, r1)" and nc1: "no_cancel r1"
    and ps1: "pictures r1 = p2 # p3 # others" by blast
  from acquire_pictures [OF nc1 ps1] obtain r2 where
    a2: "acquire r1 = Some (Some p2, r2)" and nc2: "no_cancel r2"
    and ps2: "pictures r2 = p3 # others" by blast
  from acquire_pictures [OF nc2 ps2] obtain r3 where
    a3: "acquire r2 = Some (Some p3, r3)" by blast
  have f: "render_fits vout p0 f1" "render_fits vout p1 f1" "render_fits vout p2 f2"
    "render_fits vout p3 f2"
    using fits ps by simp_all
  from Render_double_returns [OF sink dbl a0 a1 f(1,2)] obtain d0 d1 where
    r1: "Render vout f1 =
           Some (vout\<lparr>p_sys := (p_sys vout)\<lparr>last_date := date f1,
                   p_vout := Some (sink\<lparr>polls := r1, displayed := displayed sink @ [d0, d1]\<rparr>)\<rparr>\<rparr>)"
    by blast
  define sink1 where "sink1 = sink\<lparr>polls := r1, displayed := displayed sink @ [d0, d1]\<rparr>"
  define vout1 where "vout1 = vout\<lparr>p_sys := (p_sys vout)\<lparr>last_date := date f1, p_vout := Some sink1\<rparr>\<rparr>"
  have fs: "render_fits vout1 = render_fits vout"
    by (rule render_fits_state) (simp_all add: vout1_def)
  have s1: "p_vout (p_sys vout1) = Some sink1" and dbl1: "b_double_rate (p_sys vout1)"
    and l1: "last_date (p_sys vout1) = date f1"
    and a2': "acquire (polls sink1) = Some (Some p2, r2)"
    using dbl a2 by (simp_all add: vout1_def sink1_def)
  from Render_double_returns [OF s1 dbl1 a2' a3, of f2] f(3,4) obtain d2 d3 where
    r2: "Render vout1 f2 =
           Some (vout1\<lparr>p_sys := (p_sys vout1)\<lparr>last_date := date f2,
                   p_vout := Some (sink1\<lparr>polls := r3, displayed := displayed sink1 @ [d2, d3]\<rparr>)\<rparr>\<rparr>)"
    and d: "date d2 = date f2" "date d3 = second_date (last_date (p_sys vout1)) (date f2)"
    unfolding fs by blast
  define sink2 where "sink2 = sink1\<lparr>polls := r3, displayed := displayed sink1 @ [d2, d3]\<rparr>"
  define vout2 where "vout2 = vout1\<lparr>p_sys := (p_sys vout1)\<lparr>last_date := date f2, p_vout := Some sink2\<rparr>\<rparr>"
  have "Render vout f1 = Some vout1" using r1 by (simp add: vout1_def sink1_def)
  moreover have "Render vout1 f2 = Some vout2" using r2 by (simp add: vout2_def sink2_def)
  moreover have "p_vout (p_sys vout2) = Some sink2" by (simp add: vout2_def)
  moreover have "displayed sink2 = displayed sink @ [d0, d1, d2, d3]"
    by (simp add: sink2_def sink1_def)
  moreover have "date f1 = 0 \<longrightarrow> date d3 = date f2 + 20000"
    and "date f1 \<noteq> 0 \<longrightarrow> date d3 = mtime_div (3 * date f2 - date f1) 2"
    using d(2) l1 by (simp_all add: second_date_def)
  ultimately show "\<exists>vout1 vout2 sink2 d0 d1 d2 d3.
         Render vout f1 = Some vout1 \<and> last_date (p_sys vout1) = date f1 \<and>
         Render vout1 f2 = Some vout2 \<and> p_vout (p_sys vout2) = Some sink2 \<and>
         displayed sink2 = displayed sink @ [d0, d1, d2, d3] \<and>
         date d2 = date f2 \<and>
         (date f1 = 0 \<longrightarrow> date d3 = date f2 + 20000) \<and>
         (date f1 \<noteq> 0 \<longrightarrow> date d3 = mtime_div (3 * date f2 - date f1) 2)"
    using l1 d(1) by blast
qed

theorem zero_date_is_unset_witness:
  "(\<exists>rc sys log. Create (Some sysA) (Some ''linear'') = (rc, Some sys, log) \<and> last_date sys = 0) \<and>
   Render_acquire vout_six frame_six =
     Some (Acquired (vout_six\<lparr>p_sys := (p_sys vout_six)\<lparr>last_date := 100\<rparr>\<rparr>) (sink_ex [])
             (out_six\<lparr>date := 100\<rparr>) (Some (out_six\<lparr>date := 20100\<rparr>))) \<and>
   (\<exists>vout2 sink2 d0 d1 d2 d3.
      render_all (vout_ex DEINTERLACE_BOB True 77 (replicate 4 (Picture out_half)))
        [frame 0, frame 50] = Some vout2 \<and> p_vout (p_sys vout2) = Some sink2 \<and>
      displayed sink2 = [d0, d1, d2, d3] \<and> date d2 = 50 \<and> date d3 = 20050) \<and>
   (\<exists>vout2 sink2 d0 d1 d2 d3.
      render_all (vout_ex DEINTERLACE_BOB True 77 (replicate 4 (Picture out_half)))
        [frame 10, frame 50] = Some vout2 \<and> p_vout (p_sys vout2) = Some sink2 \<and>
      displayed sink2 = [d0, d1, d2, d3] \<and> date d2 = 50 \<and> date d3 = 70)"
proof -
  have c: "Create (Some sysA) (Some ''linear'') = (0, Some (fresh_mode sysA DEINTERLACE_LINEAR True), [])"
    by (simp add: Create_def fresh_mode_def)
  from zero_date_is_unset [of sysA "Some ''linear''" 0 "fresh_mode sysA DEINTERLACE_LINEAR True" "[]",
      THEN conjunct1, THEN mp, OF c] c
  have 1: "\<exists>rc sys log. Create (Some sysA) (Some ''linear'') = (rc, Some sys, log) \<and> last_date sys = 0"
    by blast
  have q: "p_vout (p_sys vout_six) = Some (sink_ex [Picture out_six, Picture out_six]) \<and>
    b_double_rate (p_sys vout_six) \<and>
    acquire (polls (sink_ex [Picture out_six, Picture out_six])) = Some (Some out_six, [Picture out_six]) \<and>
    acquire [Picture out_six] = Some (Some out_six, [])"
    by (simp add: vout_six_def sink_ex_def)
  from zero_date_is_unset [where sys0 = sysA and psz = None and rc = 0 and sys = sysA and log = "[]"
      and p_pic = frame_six, THEN conjunct2, THEN conjunct1, THEN mp, OF q]
  have 2: "Render_acquire vout_six frame_six =
     Some (Acquired (vout_six\<lparr>p_sys := (p_sys vout_six)\<lparr>last_date := 100\<rparr>\<rparr>) (sink_ex [])
             (out_six\<lparr>date := 100\<rparr>) (Some (out_six\<lparr>date := 20100\<rparr>)))"
    by (simp add: vout_six_def sink_ex_def frame_six_def)
  have ps: "pictures (replicate 4 (Picture out_half)) = replicate 4 out_half"
    by (simp add: numeral_eq_Suc)
  have fit: "list_all2 bob_fits (planes out_half) (planes (frame d))" for d
    by (simp add: bob_fits_def well_formed_def out_half_def frame_def)
  define v where "v = vout_ex DEINTERLACE_BOB True 77 (replicate 4 (Picture out_half))"
  have p: "p_vout (p_sys v) = Some (sink_ex (replicate 4 (Picture out_half))) \<and>
    b_double_rate (p_sys v) \<and> no_cancel (polls (sink_ex (replicate 4 (Picture out_half)))) \<and>
    4 \<le> length (pictures (polls (sink_ex (replicate 4 (Picture out_half))))) \<and>
    (\<forall>out \<in> set (pictures (polls (sink_ex (replicate 4 (Picture out_half))))).
        render_fits v out (frame d) \<and> render_fits v out (frame 50))" for d
    using fit
    by (simp add: v_def vout_ex_def sink_ex_def no_cancel_def list_all_iff ps render_fits_def I420_def)
  have e: "mtime_div (3 * 50 - 10) 2 = 70" by code_simp
  from zero_date_is_unset [where sys0 = sysA and psz = None and rc = 0 and sys = sysA and log = "[]"
      and ?f1.0 = "frame 0" and ?f2.0 = "frame 50",
      THEN conjunct2, THEN conjunct2, THEN mp, OF p]
  have 3: "\<exists>vout2 sink2 d0 d1 d2 d3.
      render_all v [frame 0, frame 50] = Some vout2 \<and> p_vout (p_sys vout2) = Some sink2 \<and>
      displayed sink2 = [d0, d1, d2, d3] \<and> date d2 = 50 \<and> date d3 = 20050"
    by (auto simp: sink_ex_def frame_def)
  from zero_date_is_unset [where sys0 = sysA and psz = None and rc = 0 and sys = sysA and log = "[]"
      and ?f1.0 = "frame 10" and ?f2.0 = "frame 50",
      THEN conjunct2, THEN conjunct2, THEN mp, OF p]
  have 4: "\<exists>vout2 sink2 d0 d1 d2 d3.
      render_all v [frame 10, frame 50] = Some vout2 \<and> p_vout (p_sys vout2) = Some sink2 \<and>
      displayed sink2 = [d0, d1, d2, d3] \<and> date d2 = 50 \<and> date d3 = 70"
    using e by (auto simp: sink_ex_def frame_def)
  from 1 2 3 4 show ?thesis unfolding v_def by (intro conjI)
qed

end
